theory Spec2Isabelle
  imports Main "HOL-Library.Sublist"
begin

section \<open>Go strings and the library functions the program calls\<close>

text \<open>
  A Go string is a sequence of bytes, so it is a \<open>string\<close> (a list of 8-bit \<open>char\<close>s)
  here. An \<open>error\<close> value is represented by its message text, since the program only ever
  formats errors with \<open>%v\<close>.
\<close>

type_synonym goerror = string

definition dquote :: char where
  "dquote = CHR 0x22"

subsection \<open>strings.Index, strings.Contains, strings.HasPrefix\<close>

text \<open>\<open>strings.Index(s, substr)\<close>: the byte offset of the first occurrence, Go's \<open>-1\<close> is \<open>None\<close>.\<close>

fun strings_Index :: "string \<Rightarrow> string \<Rightarrow> nat option" where
  "strings_Index [] substr = (if substr = [] then Some 0 else None)"
| "strings_Index (c # cs) substr =
     (if prefix substr (c # cs) then Some 0 else map_option Suc (strings_Index cs substr))"

text \<open>\<open>strings.Contains(s, substr)\<close> is \<open>Index(s, substr) >= 0\<close>.\<close>

definition strings_Contains :: "string \<Rightarrow> string \<Rightarrow> bool" where
  "strings_Contains s substr = (strings_Index s substr \<noteq> None)"

definition strings_HasPrefix :: "string \<Rightarrow> string \<Rightarrow> bool" where
  "strings_HasPrefix s pre = (length s \<ge> length pre \<and> take (length pre) s = pre)"

subsection \<open>strings.Split\<close>

text \<open>
  \<open>strings.Split(s, sep)\<close> cuts \<open>s\<close> at the successive leftmost occurrences of \<open>sep\<close>.
  The program only calls it with the separators \<open>"-i "\<close> and \<open>" "\<close>; for an empty separator
  Go explodes the string into UTF-8 sequences, which is modelled bytewise.
\<close>

lemma strings_Index_bound:
  "strings_Index s substr = Some m \<Longrightarrow> m + length substr \<le> length s"
proof (induction s arbitrary: m)
  case Nil
  then show ?case by (simp split: if_splits)
next
  case (Cons c cs)
  show ?case
  proof (cases "prefix substr (c # cs)")
    case True
    with Cons.prems have "m = 0" by simp
    from True have "length substr \<le> length (c # cs)" by (rule prefix_length_le)
    with \<open>m = 0\<close> show ?thesis by simp
  next
    case False
    with Cons.prems obtain k where "strings_Index cs substr = Some k" "m = Suc k"
      by auto
    with Cons.IH show ?thesis by fastforce
  qed
qed

function strings_Split :: "string \<Rightarrow> string \<Rightarrow> string list" where
  "strings_Split s sep =
     (if sep = [] then map (\<lambda>c. [c]) s
      else case strings_Index s sep of
             None \<Rightarrow> [s]
           | Some m \<Rightarrow> take m s # strings_Split (drop (m + length sep) s) sep)"
  by pat_completeness auto
termination
proof (relation "measure (\<lambda>(s, sep). length s)")
  show "wf (measure (\<lambda>(s, sep). length s))" by simp
next
  fix s sep :: string and m
  assume "sep \<noteq> []" and "strings_Index s sep = Some m"
  then have "m + length sep \<le> length s" and "0 < length sep"
    by (simp_all add: strings_Index_bound)
  then have "length (drop (m + length sep) s) < length s"
    unfolding length_drop by arith
  then show "((drop (m + length sep) s, sep), (s, sep)) \<in> measure (\<lambda>(s, sep). length s)"
    by simp
qed

declare strings_Split.simps [simp del]

subsection \<open>Unicode white space, strings.TrimSpace and strings.Fields\<close>

text \<open>
  \<open>strings.TrimSpace\<close> and \<open>strings.Fields\<close> decode UTF-8 and test \<open>unicode.IsSpace\<close>:
  U+0009..U+000D, U+0020, U+0085, U+00A0, U+1680, U+2000..U+200A, U+2028, U+2029, U+202F,
  U+205F and U+3000. \<open>space_width s\<close> is the number of bytes of the white-space rune that
  \<open>s\<close> starts with, \<open>0\<close> when it starts with none; an invalid byte decodes to U+FFFD, which
  is no space. \<open>space_width_last\<close> is the same for the rune \<open>s\<close> ends with.
\<close>

definition asciiSpace :: "char \<Rightarrow> bool" where
  "asciiSpace c = (c \<in> set [CHR 0x09, CHR 0x0A, CHR 0x0B, CHR 0x0C, CHR 0x0D, CHR 0x20])"

definition space_runes2 :: "string list" where
  "space_runes2 = [[CHR 0xC2, CHR 0x85], [CHR 0xC2, CHR 0xA0]]"

definition space_runes3 :: "string list" where
  "space_runes3 =
     [[CHR 0xE1, CHR 0x9A, CHR 0x80],
      [CHR 0xE2, CHR 0x80, CHR 0x80], [CHR 0xE2, CHR 0x80, CHR 0x81],
      [CHR 0xE2, CHR 0x80, CHR 0x82], [CHR 0xE2, CHR 0x80, CHR 0x83],
      [CHR 0xE2, CHR 0x80, CHR 0x84], [CHR 0xE2, CHR 0x80, CHR 0x85],
      [CHR 0xE2, CHR 0x80, CHR 0x86], [CHR 0xE2, CHR 0x80, CHR 0x87],
      [CHR 0xE2, CHR 0x80, CHR 0x88], [CHR 0xE2, CHR 0x80, CHR 0x89],
      [CHR 0xE2, CHR 0x80, CHR 0x8A],
      [CHR 0xE2, CHR 0x80, CHR 0xA8], [CHR 0xE2, CHR 0x80, CHR 0xA9],
      [CHR 0xE2, CHR 0x80, CHR 0xAF], [CHR 0xE2, CHR 0x81, CHR 0x9F],
      [CHR 0xE3, CHR 0x80, CHR 0x80]]"

definition space_width :: "string \<Rightarrow> nat" where
  "space_width s =
     (case s of
        [] \<Rightarrow> 0
      | c # _ \<Rightarrow>
          if asciiSpace c then 1
          else if take 2 s \<in> set space_runes2 then 2
          else if take 3 s \<in> set space_runes3 then 3
          else 0)"

definition space_width_last :: "string \<Rightarrow> nat" where
  "space_width_last s =
     (if s = [] then 0
      else if asciiSpace (last s) then 1
      else if drop (length s - 2) s \<in> set space_runes2 then 2
      else if drop (length s - 3) s \<in> set space_runes3 then 3
      else 0)"

lemma space_runes2_length: "x \<in> set space_runes2 \<Longrightarrow> length x = 2"
  by (auto simp: space_runes2_def)

lemma space_runes3_length: "x \<in> set space_runes3 \<Longrightarrow> length x = 3"
  by (auto simp: space_runes3_def)

lemma space_width_le: "space_width s \<le> length s"
proof (cases s)
  case Nil
  then show ?thesis by (simp add: space_width_def)
next
  case (Cons c cs)
  have two: "take 2 s \<in> set space_runes2 \<Longrightarrow> 2 \<le> length s"
    using space_runes2_length [of "take 2 s"] by simp
  have three: "take 3 s \<in> set space_runes3 \<Longrightarrow> 3 \<le> length s"
    using space_runes3_length [of "take 3 s"] by simp
  from Cons have "1 \<le> length s" by simp
  with two three Cons show ?thesis
    unfolding space_width_def by (simp only: list.case split: if_split) simp
qed

lemma space_width_last_le: "space_width_last s \<le> length s"
proof (cases "s = []")
  case True
  then show ?thesis by (simp add: space_width_last_def)
next
  case False
  have two: "drop (length s - 2) s \<in> set space_runes2 \<Longrightarrow> 2 \<le> length s"
    using space_runes2_length [of "drop (length s - 2) s"] by simp
  have three: "drop (length s - 3) s \<in> set space_runes3 \<Longrightarrow> 3 \<le> length s"
    using space_runes3_length [of "drop (length s - 3) s"] by simp
  from False have "1 \<le> length s" by (cases s) simp_all
  with two three False show ?thesis
    unfolding space_width_last_def by (simp only: if_False split: if_split) simp
qed

function TrimLeftSpace :: "string \<Rightarrow> string" where
  "TrimLeftSpace s =
     (if space_width s = 0 then s else TrimLeftSpace (drop (space_width s) s))"
  by pat_completeness auto
termination
proof (relation "measure length")
  show "wf (measure length)" by simp
next
  fix s :: string
  assume "space_width s \<noteq> 0"
  moreover have "space_width s \<le> length s" by (rule space_width_le)
  ultimately show "(drop (space_width s) s, s) \<in> measure length" by simp
qed

function TrimRightSpace :: "string \<Rightarrow> string" where
  "TrimRightSpace s =
     (if space_width_last s = 0 then s
      else TrimRightSpace (take (length s - space_width_last s) s))"
  by pat_completeness auto
termination
proof (relation "measure length")
  show "wf (measure length)" by simp
next
  fix s :: string
  assume "space_width_last s \<noteq> 0"
  moreover have "space_width_last s \<le> length s" by (rule space_width_last_le)
  ultimately show "(take (length s - space_width_last s) s, s) \<in> measure length" by simp
qed

declare TrimLeftSpace.simps [simp del] TrimRightSpace.simps [simp del]

definition strings_TrimSpace :: "string \<Rightarrow> string" where
  "strings_TrimSpace s = TrimRightSpace (TrimLeftSpace s)"

text \<open>
  \<open>strings.Fields(s)\<close>: the maximal runs of non-space runes. \<open>fields_loop cur s\<close> walks
  \<open>s\<close> with \<open>cur\<close> the field collected so far.
\<close>

function fields_loop :: "string \<Rightarrow> string \<Rightarrow> string list" where
  "fields_loop cur s =
     (case s of
        [] \<Rightarrow> (if cur = [] then [] else [cur])
      | c # cs \<Rightarrow>
          if space_width s = 0 then fields_loop (cur @ [c]) cs
          else (if cur = [] then [] else [cur]) @ fields_loop [] (drop (space_width s) s))"
  by pat_completeness auto
termination
proof (relation "measure (\<lambda>(cur, s). length s)")
  show "wf (measure (\<lambda>(cur, s). length s))" by simp
next
  fix cur s :: string and c cs
  assume "s = c # cs"
  then show "((cur @ [c], cs), (cur, s)) \<in> measure (\<lambda>(cur, s). length s)" by simp
next
  fix cur s :: string and c cs
  assume "s = c # cs" and "space_width s \<noteq> 0"
  then show "(([], drop (space_width s) s), (cur, s)) \<in> measure (\<lambda>(cur, s). length s)"
    by simp
qed

declare fields_loop.simps [simp del]

definition strings_Fields :: "string \<Rightarrow> string list" where
  "strings_Fields s = fields_loop [] s"

subsection \<open>strconv.Atoi and strconv.Itoa\<close>

text \<open>
  \<open>strconv.Atoi\<close> accepts an optional sign followed by at least one decimal digit and
  nothing else, and fails when the value does not fit Go's \<open>int\<close> (64 bits on the
  platforms the tool runs on). Go's \<open>(0, err)\<close> is \<open>None\<close>.
\<close>

definition is_digit :: "char \<Rightarrow> bool" where
  "is_digit c = (48 \<le> (of_char c :: nat) \<and> (of_char c :: nat) \<le> 57)"

definition digit_val :: "char \<Rightarrow> int" where
  "digit_val c = of_char c - 48"

fun parse_digits :: "string \<Rightarrow> int \<Rightarrow> int option" where
  "parse_digits [] n = Some n"
| "parse_digits (c # cs) n =
     (if is_digit c then parse_digits cs (n * 10 + digit_val c) else None)"

definition strconv_Atoi :: "string \<Rightarrow> int option" where
  "strconv_Atoi s =
     (case s of
        [] \<Rightarrow> None
      | c # cs \<Rightarrow>
          (let body = (if c = CHR ''-'' \<or> c = CHR ''+'' then cs else s) in
           if body = [] then None
           else case parse_digits body 0 of
                  None \<Rightarrow> None
                | Some n \<Rightarrow>
                    (let v = (if c = CHR ''-'' then - n else n) in
                     if - (2 ^ 63) \<le> v \<and> v < 2 ^ 63 then Some v else None)))"

fun nat_digits :: "nat \<Rightarrow> string" where
  "nat_digits n =
     (if n < 10 then [''0123456789'' ! n]
      else nat_digits (n div 10) @ [''0123456789'' ! (n mod 10)])"

declare nat_digits.simps [simp del]

text \<open>\<open>strconv.Itoa\<close>, which is also what the verb \<open>%d\<close> prints for an \<open>int\<close>.\<close>

definition strconv_Itoa :: "int \<Rightarrow> string" where
  "strconv_Itoa i = (if i < 0 then CHR ''-'' # nat_digits (nat (- i)) else nat_digits (nat i))"

section \<open>The data model of main.go\<close>

datatype itemType = ItemActiveTunnel | ItemAvailableTunnel | ItemAction

record item =
  name :: string
  destination :: string
  command :: string
  itemType :: itemType
  pid :: int

record activeTunnel =
  PID :: int
  Command :: string
  Destination :: string

record TunnelConfig =
  Name :: string
  Host :: string
  User :: string
  Subnets :: string
  ExtraArgs :: string

record Config =
  Tunnels :: "TunnelConfig list"

section \<open>loadConfigTunnels: building the command of a configured tunnel\<close>

text \<open>
  The body of the loop over \<open>config.Tunnels\<close>. \<open>debugMode\<close> is the global flag of the
  program, passed explicitly. \<open>sshCmd\<close> and \<open>tunnelCommand\<close> are the local variables
  \<open>sshCmd\<close> and \<open>command\<close> at the end of the loop body.
\<close>

definition keyPath :: "TunnelConfig \<Rightarrow> string" where
  "keyPath tunnel = strings_TrimSpace (strings_Split (ExtraArgs tunnel) ''-i '' ! 1)"

definition sshCmd :: "bool \<Rightarrow> TunnelConfig \<Rightarrow> string" where
  "sshCmd debugMode tunnel =
     ''ssh -o StrictHostKeyChecking=no''
     @ (if strings_Contains (ExtraArgs tunnel) ''-i '' then '' -i '' @ keyPath tunnel else [])
     @ (if debugMode then '' -vvv'' else [])"

definition tunnelCommand :: "bool \<Rightarrow> TunnelConfig \<Rightarrow> string" where
  "tunnelCommand debugMode tunnel =
     (if debugMode
      then ''sshuttle -v -r '' @ User tunnel @ ''@'' @ Host tunnel @ '' '' @ Subnets tunnel
           @ '' --ssh-cmd='' @ [dquote] @ sshCmd debugMode tunnel @ [dquote]
      else ''sshuttle -r '' @ User tunnel @ ''@'' @ Host tunnel @ '' '' @ Subnets tunnel
           @ '' --daemon --ssh-cmd='' @ [dquote] @ sshCmd debugMode tunnel @ [dquote])
     @ (if ExtraArgs tunnel \<noteq> [] \<and> \<not> strings_Contains (ExtraArgs tunnel) ''-i ''
        then '' '' @ ExtraArgs tunnel else [])"

definition tunnelItem :: "bool \<Rightarrow> TunnelConfig \<Rightarrow> item" where
  "tunnelItem debugMode tunnel =
     \<lparr>name = Name tunnel,
      destination = User tunnel @ ''@'' @ Host tunnel,
      command = tunnelCommand debugMode tunnel,
      itemType = ItemAvailableTunnel,
      pid = 0\<rparr>"

text \<open>
  What the function reads from the machine: the home directory, the configuration file
  and the YAML decoder can each fail, the file can be absent, or a \<open>Config\<close> is decoded.
\<close>

datatype config_source =
    HomeDirError goerror
  | ConfigNotExist
  | ReadFileError goerror
  | YamlError goerror
  | ConfigLoaded Config

definition defaultConfigItem :: item where
  "defaultConfigItem =
     \<lparr>name = ''Example Server'',
      destination = ''user@example.com'',
      command = ''sshuttle -r user@example.com 10.0.0.0/8'',
      itemType = ItemAvailableTunnel,
      pid = 0\<rparr>"

fun loadConfigTunnels :: "bool \<Rightarrow> config_source \<Rightarrow> goerror + item list" where
  "loadConfigTunnels debugMode (HomeDirError err) = Inl err"
| "loadConfigTunnels debugMode ConfigNotExist = Inr [defaultConfigItem]"
| "loadConfigTunnels debugMode (ReadFileError err) = Inl err"
| "loadConfigTunnels debugMode (YamlError err) = Inl err"
| "loadConfigTunnels debugMode (ConfigLoaded config) =
     Inr (map (tunnelItem debugMode) (Tunnels config))"

section \<open>validateSSHConnection: the key path of the connectivity test\<close>

text \<open>
  The arguments \<open>validateSSHConnection\<close> builds for its \<open>ssh\<close> test command. It reads the
  key path out of the extra arguments as \<open>loadConfigTunnels\<close> does, and then keeps only
  what stands before the first space (\<open>strings.Split(keyPath, " ")[0]\<close>).
\<close>

definition validateSSHConnection_sshArgs :: "string \<Rightarrow> string \<Rightarrow> string \<Rightarrow> string list" where
  "validateSSHConnection_sshArgs user host extraArgs =
     [''-o'', ''ConnectTimeout=10'', ''-o'', ''BatchMode=yes'', ''-o'', ''StrictHostKeyChecking=no'']
     @ (if strings_Contains extraArgs ''-i ''
        then [''-i'',
              strings_Split (strings_TrimSpace (strings_Split extraArgs ''-i '' ! 1)) '' '' ! 0]
        else [])
     @ [user @ ''@'' @ host, ''exit'']"

section \<open>getActiveTunnels: scanning the process table\<close>

subsection \<open>bufio.Scanner with the default line splitter\<close>

text \<open>
  \<open>scanner.Scan()\<close> yields the text between newlines, without one trailing carriage
  return, and no empty last line after a final newline. The scanner's buffer holds at most
  \<open>bufio.MaxScanTokenSize\<close> bytes: on a line of that many bytes or more \<open>Scan\<close> returns
  false (the program never looks at \<open>scanner.Err()\<close>), so the loop ends there.
\<close>

fun split_newlines :: "string \<Rightarrow> string \<Rightarrow> string list" where
  "split_newlines cur [] = (if cur = [] then [] else [cur])"
| "split_newlines cur (c # cs) =
     (if c = CHR 0x0A then cur # split_newlines [] cs else split_newlines (cur @ [c]) cs)"

definition MaxScanTokenSize :: nat where
  "MaxScanTokenSize = 64 * 1024"

definition dropCR :: "string \<Rightarrow> string" where
  "dropCR l = (if l \<noteq> [] \<and> last l = CHR 0x0D then butlast l else l)"

definition Scanner_lines :: "string \<Rightarrow> string list" where
  "Scanner_lines output =
     map dropCR (takeWhile (\<lambda>l. length l < MaxScanTokenSize) (split_newlines [] output))"

subsection \<open>The regular expression \<open>sshuttle.*-r\s+(\S+)\<close>\<close>

text \<open>
  Go's \<open>regexp\<close> finds the leftmost match and prefers, for the greedy \<open>.*\<close>, the longest
  skip that still lets the rest match: the match starts at the first \<open>sshuttle\<close> and the
  group is taken after the last \<open>-r\<close> that is followed by white space and a non-space.
  \<open>\s\<close> is the ASCII class \<open>[\t\n\f\r ]\<close>. \<open>re_dest line\<close> is \<open>matches[1]\<close> of
  \<open>re.FindStringSubmatch(line)\<close>, and \<open>None\<close> when there is no match
  (\<open>len(matches) > 1\<close> fails).
\<close>

definition re_space :: "char \<Rightarrow> bool" where
  "re_space c = (c \<in> set [CHR 0x09, CHR 0x0A, CHR 0x0C, CHR 0x0D, CHR 0x20])"

definition match_r :: "string \<Rightarrow> string option" where
  "match_r s =
     (if prefix ''-r'' s
      then (let rest = drop 2 s;
                after = dropWhile re_space rest;
                dest = takeWhile (\<lambda>c. \<not> re_space c) after
            in if takeWhile re_space rest \<noteq> [] \<and> dest \<noteq> [] then Some dest else None)
      else None)"

fun last_match_r :: "string \<Rightarrow> string option" where
  "last_match_r [] = None"
| "last_match_r (c # cs) =
     (case last_match_r cs of Some d \<Rightarrow> Some d | None \<Rightarrow> match_r (c # cs))"

definition re_dest :: "string \<Rightarrow> string option" where
  "re_dest line =
     (case strings_Index line ''sshuttle'' of
        None \<Rightarrow> None
      | Some i \<Rightarrow> last_match_r (drop (i + length ''sshuttle'') line))"

subsection \<open>The scan loop\<close>

text \<open>
  \<open>scan_loop lines tunnels\<close> is the \<open>for scanner.Scan()\<close> loop, \<open>tunnels\<close> the slice
  built so far. The argument of \<open>getActiveTunnels\<close> is what \<open>exec.Command("ps",
  "aux").Output()\<close> returned: an error or the output.
\<close>

fun scan_loop :: "string list \<Rightarrow> activeTunnel list \<Rightarrow> activeTunnel list" where
  "scan_loop [] tunnels = tunnels"
| "scan_loop (line # rest) tunnels =
     (if strings_Contains line ''sshuttle'' \<and> strings_Contains line ''-r'' then
        (let fields = strings_Fields line in
         if length fields > 1 then
           (case strconv_Atoi (fields ! 1) of
              None \<Rightarrow> scan_loop rest tunnels
            | Some p \<Rightarrow>
                scan_loop rest
                  (tunnels @
                   [\<lparr>PID = p, Command = line,
                     Destination = (case re_dest line of None \<Rightarrow> ''unknown'' | Some d \<Rightarrow> d)\<rparr>]))
         else scan_loop rest tunnels)
      else scan_loop rest tunnels)"

fun getActiveTunnels :: "goerror + string \<Rightarrow> goerror + activeTunnel list" where
  "getActiveTunnels (Inl err) = Inl err"
| "getActiveTunnels (Inr output) = Inr (scan_loop (Scanner_lines output) [])"

section \<open>The machine, killTunnel and killAllTunnels\<close>

text \<open>
  What the program observes of the machine: the result of \<open>ps aux\<close>, the result of
  \<open>kill <pid>\<close> (\<open>None\<close> is success), the configuration file, and the result of the shell
  that runs the chosen command. What it does to the machine is a list of events in the
  order of execution.
\<close>

record world =
  ps_aux :: "goerror + string"
  kill_cmd :: "int \<Rightarrow> goerror option"
  config_file :: config_source
  sh_cmd :: "string \<Rightarrow> goerror option"

datatype event = Kill int | Log string | Print string | Shell string

definition killTunnel :: "world \<Rightarrow> int \<Rightarrow> event list \<times> goerror option" where
  "killTunnel w p = ([Kill p], kill_cmd w p)"

fun kill_loop :: "world \<Rightarrow> activeTunnel list \<Rightarrow> event list" where
  "kill_loop w [] = []"
| "kill_loop w (tunnel # rest) =
     (case killTunnel w (PID tunnel) of
        (evs, None) \<Rightarrow> evs @ kill_loop w rest
      | (evs, Some err) \<Rightarrow>
          evs @ [Log (''Failed to kill tunnel '' @ strconv_Itoa (PID tunnel) @ '': '' @ err)]
          @ kill_loop w rest)"

definition killAllTunnels :: "world \<Rightarrow> event list \<times> goerror option" where
  "killAllTunnels w =
     (case getActiveTunnels (ps_aux w) of
        Inl err \<Rightarrow> ([], Some err)
      | Inr tunnels \<Rightarrow> (kill_loop w tunnels, None))"

section \<open>loadAllItems: the catalog\<close>

definition sectionItem :: "string \<Rightarrow> item" where
  "sectionItem n = \<lparr>name = n, destination = [], command = [], itemType = ItemAction, pid = 0\<rparr>"

definition bullet :: string where
  "bullet = [CHR 0xE2, CHR 0x97, CHR 0x8F]"

definition activeItem :: "activeTunnel \<Rightarrow> item" where
  "activeItem tunnel =
     \<lparr>name = bullet @ '' '' @ Destination tunnel @ '' (PID: '' @ strconv_Itoa (PID tunnel)
             @ '') - Click to stop'',
      destination = Destination tunnel,
      command = ''kill '' @ strconv_Itoa (PID tunnel),
      itemType = ItemActiveTunnel,
      pid = PID tunnel\<rparr>"

definition addNewItem :: item where
  "addNewItem =
     \<lparr>name = ''+ Add New Tunnel'', destination = [], command = ''add_new'',
      itemType = ItemAction, pid = 0\<rparr>"

definition loadAllItems :: "bool \<Rightarrow> world \<Rightarrow> event list \<times> (goerror + item list)" where
  "loadAllItems debugMode w =
     (let (activeTunnels, logged) =
            (case getActiveTunnels (ps_aux w) of
               Inl err \<Rightarrow> ([], [Log (''Error getting active tunnels: '' @ err)])
             | Inr tunnels \<Rightarrow> (tunnels, []));
          items1 =
            (case activeTunnels of
               [] \<Rightarrow> []
             | tunnel # _ \<Rightarrow>
                 [sectionItem ''CURRENT TUNNEL'', activeItem tunnel, sectionItem []]);
          items2 = items1 @ [sectionItem ''AVAILABLE TUNNELS'']
      in case loadConfigTunnels debugMode (config_file w) of
           Inl err \<Rightarrow> (logged, Inl err)
         | Inr configItems \<Rightarrow>
             (logged, Inr (items2 @ configItems @ [sectionItem [], addNewItem])))"

section \<open>The selection controller: model.Update\<close>

definition isSelectableItem :: "item \<Rightarrow> bool" where
  "isSelectableItem i =
     (\<not> (itemType i = ItemAction \<and> (strings_Contains (name i) ''TUNNEL'' \<or> name i = [])))"

text \<open>
  The list widget (\<open>list.Model\<close> of the bubbles library) as far as the program uses it:
  \<open>Items()\<close> are all items, \<open>VisibleItems()\<close> the filtered ones while a filter is applied,
  \<open>Index()\<close> is the cursor, which the widget keeps non-negative, \<open>Select(i)\<close> moves it,
  and \<open>SelectedItem()\<close> is the visible item under the cursor or \<open>nil\<close>.
\<close>

record listModel =
  items :: "item list"
  filtered :: "item list option"
  index :: nat
  width :: int

definition VisibleItems :: "listModel \<Rightarrow> item list" where
  "VisibleItems l = (case filtered l of None \<Rightarrow> items l | Some fs \<Rightarrow> fs)"

definition SelectedItem :: "listModel \<Rightarrow> item option" where
  "SelectedItem l =
     (if VisibleItems l = [] \<or> length (VisibleItems l) \<le> index l then None
      else Some (VisibleItems l ! index l))"

definition Select :: "nat \<Rightarrow> listModel \<Rightarrow> listModel" where
  "Select i l = l\<lparr>index := i\<rparr>"

record model =
  list :: listModel
  choice :: string
  quitting :: bool

datatype msg = WindowSizeMsg int | KeyMsg string | OtherMsg

datatype cmd = NoCmd | Quit | WidgetCmd

datatype panic = IndexOutOfRange

text \<open>
  The two navigation loops. \<open>scan_up its n\<close> is \<open>for i := n - 1; i >= 0; i--\<close> and
  \<open>scan_down its i\<close> is \<open>for ; i < len(items); i++\<close>; both return the index passed to
  \<open>Select\<close> before the \<open>break\<close>, if any. Indexing the slice out of range panics.
\<close>

fun scan_up :: "item list \<Rightarrow> nat \<Rightarrow> panic + nat option" where
  "scan_up its 0 = Inr None"
| "scan_up its (Suc i) =
     (if length its \<le> i then Inl IndexOutOfRange
      else if isSelectableItem (its ! i) then Inr (Some i)
      else scan_up its i)"

function scan_down :: "item list \<Rightarrow> nat \<Rightarrow> nat option" where
  "scan_down its i =
     (if i < length its
      then (if isSelectableItem (its ! i) then Some i else scan_down its (Suc i))
      else None)"
  by pat_completeness auto
termination
  by (relation "measure (\<lambda>(its, i). length its - i)") auto

declare scan_down.simps [simp del]

text \<open>
  \<open>Update\<close> returns the new model, the command handed back to the runtime and the events
  it caused; \<open>confirm\<close> is its \<open>case "enter"\<close>. What the program leaves to the list widget
  is a parameter: \<open>list_Update\<close> is the widget's own \<open>Update\<close>, which gets the messages
  the program does not handle, and \<open>list_SetWidth\<close> is its \<open>SetWidth\<close>, which stores the
  width and lays the pages out again.
\<close>

record widget =
  list_Update :: "msg \<Rightarrow> listModel \<Rightarrow> listModel \<times> cmd"
  list_SetWidth :: "int \<Rightarrow> listModel \<Rightarrow> listModel"

definition confirm :: "world \<Rightarrow> model \<Rightarrow> model \<times> cmd \<times> event list" where
  "confirm w m =
     (case SelectedItem (list m) of
        None \<Rightarrow> (m, Quit, [])
      | Some i \<Rightarrow>
          if isSelectableItem i then
            (case itemType i of
               ItemActiveTunnel \<Rightarrow>
                 (case killTunnel w (pid i) of
                    (evs, Some err) \<Rightarrow>
                      (m\<lparr>choice := ''Failed to stop tunnel: '' @ err\<rparr>, Quit, evs)
                  | (evs, None) \<Rightarrow>
                      (m\<lparr>choice := ''Tunnel stopped: '' @ destination i\<rparr>, Quit, evs))
             | ItemAvailableTunnel \<Rightarrow>
                 (case killAllTunnels w of
                    (evs, Some err) \<Rightarrow>
                      (m\<lparr>choice := command i\<rparr>, Quit,
                       evs @ [Log (''Warning: Failed to kill existing tunnels: '' @ err)])
                  | (evs, None) \<Rightarrow> (m\<lparr>choice := command i\<rparr>, Quit, evs))
             | ItemAction \<Rightarrow>
                 (if command i = ''add_new'' then (m\<lparr>choice := ''add_new_tunnel''\<rparr>, Quit, [])
                  else (m, Quit, [])))
          else (m, Quit, []))"

definition Update ::
  "world \<Rightarrow> widget \<Rightarrow> msg \<Rightarrow> model \<Rightarrow> panic + (model \<times> cmd \<times> event list)" where
  "Update w wg message m =
     (case message of
        WindowSizeMsg wd \<Rightarrow> Inr (m\<lparr>list := list_SetWidth wg wd (list m)\<rparr>, NoCmd, [])
      | KeyMsg keypress \<Rightarrow>
          if keypress = ''ctrl+c'' \<or> keypress = ''q'' then Inr (m\<lparr>quitting := True\<rparr>, Quit, [])
          else if keypress = ''up'' \<or> keypress = ''k'' then
            (case scan_up (items (list m)) (index (list m)) of
               Inl p \<Rightarrow> Inl p
             | Inr None \<Rightarrow> Inr (m, NoCmd, [])
             | Inr (Some i) \<Rightarrow> Inr (m\<lparr>list := Select i (list m)\<rparr>, NoCmd, []))
          else if keypress = ''down'' \<or> keypress = ''j'' then
            (case scan_down (items (list m)) (index (list m) + 1) of
               None \<Rightarrow> Inr (m, NoCmd, [])
             | Some i \<Rightarrow> Inr (m\<lparr>list := Select i (list m)\<rparr>, NoCmd, []))
          else if keypress = ''enter'' then Inr (confirm w m)
          else (case list_Update wg message (list m) of
                  (l, c) \<Rightarrow> Inr (m\<lparr>list := l\<rparr>, c, []))
      | OtherMsg \<Rightarrow>
          (case list_Update wg message (list m) of (l, c) \<Rightarrow> Inr (m\<lparr>list := l\<rparr>, c, [])))"

section \<open>The runtime loop and what main does with the choice\<close>

text \<open>
  \<open>p.Run()\<close> of the bubbletea library. Its event loop receives one message at a time and
  calls \<open>Update\<close> on it. The command \<open>Update\<close> returns is not run by the loop: it is
  handed to another goroutine, and the message it produces comes back to the loop like any
  input. For \<open>tea.Quit\<close> that message is the quit message, on which the loop returns the
  model. So the input that is delivered to the loop after an \<open>Update\<close> returned
  \<open>tea.Quit\<close> and before the quit message arrives is still passed to \<open>Update\<close>; how many
  messages that is depends on the scheduling, and is the parameter \<open>queued\<close> here.
  \<open>Run\<close> returns the final model, the events in order, and the messages never
  processed; \<open>drain\<close> is the loop between the first \<open>tea.Quit\<close> and the quit message.
  The answers of the machine are taken as fixed during one run.
\<close>

fun drain ::
  "world \<Rightarrow> widget \<Rightarrow> nat \<Rightarrow> model \<Rightarrow> msg list \<Rightarrow> panic + (model \<times> event list \<times> msg list)" where
  "drain w wg 0 m xs = Inr (m, [], xs)"
| "drain w wg (Suc k) m [] = Inr (m, [], [])"
| "drain w wg (Suc k) m (x # xs) =
     (case Update w wg x m of
        Inl p \<Rightarrow> Inl p
      | Inr (m', c, evs) \<Rightarrow>
          (case drain w wg k m' xs of
             Inl p \<Rightarrow> Inl p
           | Inr (m'', evs', unread) \<Rightarrow> Inr (m'', evs @ evs', unread)))"

fun Run ::
  "world \<Rightarrow> widget \<Rightarrow> nat \<Rightarrow> model \<Rightarrow> msg list \<Rightarrow> panic + (model \<times> event list \<times> msg list)" where
  "Run w wg queued m [] = Inr (m, [], [])"
| "Run w wg queued m (x # xs) =
     (case Update w wg x m of
        Inl p \<Rightarrow> Inl p
      | Inr (m', c, evs) \<Rightarrow>
          (case (if c = Quit then drain w wg queued m' xs else Run w wg queued m' xs) of
             Inl p \<Rightarrow> Inl p
           | Inr (m'', evs', unread) \<Rightarrow> Inr (m'', evs @ evs', unread)))"

text \<open>The end of \<open>main\<close>: what is done with \<open>finalModel.choice\<close>.\<close>

definition handleChoice :: "world \<Rightarrow> model \<Rightarrow> event list" where
  "handleChoice w finalModel =
     (if choice finalModel \<noteq> [] then
        (if choice finalModel = ''add_new_tunnel''
         then [Print ''Coming soon: Interactive tunnel creation'']
         else if strings_HasPrefix (choice finalModel) ''Tunnel stopped:''
                 \<or> strings_HasPrefix (choice finalModel) ''Failed to stop''
                 \<or> strings_HasPrefix (choice finalModel) ''All tunnels killed''
                 \<or> strings_HasPrefix (choice finalModel) ''Failed to kill''
         then [Print (choice finalModel)]
         else [Print ''Starting tunnel...'', Shell (choice finalModel)]
              @ (case sh_cmd w (choice finalModel) of
                   None \<Rightarrow> []
                 | Some err \<Rightarrow> [Print (''Error executing command: '' @ err)]))
      else [])"

section \<open>Properties of the catalog\<close>

lemma loadConfigTunnels_types:
  "loadConfigTunnels d src = Inr cis \<Longrightarrow> i \<in> set cis \<Longrightarrow> itemType i = ItemAvailableTunnel"
  by (cases src) (auto simp: tunnelItem_def defaultConfigItem_def)

lemma loadAllItems_result:
  assumes "loadConfigTunnels d (config_file w) = Inr cis"
  shows "snd (loadAllItems d w) =
           Inr ((case getActiveTunnels (ps_aux w) of
                   Inr (t # _) \<Rightarrow> [sectionItem ''CURRENT TUNNEL'', activeItem t, sectionItem []]
                 | _ \<Rightarrow> [])
                @ sectionItem ''AVAILABLE TUNNELS'' # cis @ [sectionItem [], addNewItem])"
  using assms by (simp add: loadAllItems_def split: sum.splits list.splits)

lemma scan_sample:
  "getActiveTunnels
     (Inr (''USER PID'' @ [CHR 0x0A] @ ''root 4242 0.0 sshuttle -r bob@gw 10.0.0.0/8''
           @ [CHR 0x0A])) =
   Inr [\<lparr>PID = 4242, Command = ''root 4242 0.0 sshuttle -r bob@gw 10.0.0.0/8'',
         Destination = ''bob@gw''\<rparr>]"
proof -
  have "Scanner_lines (''USER PID'' @ [CHR 0x0A]
          @ ''root 4242 0.0 sshuttle -r bob@gw 10.0.0.0/8'' @ [CHR 0x0A]) =
        [''USER PID'', ''root 4242 0.0 sshuttle -r bob@gw 10.0.0.0/8'']"
    by (simp add: Scanner_lines_def MaxScanTokenSize_def dropCR_def)
  moreover have
    "scan_loop [''USER PID'', ''root 4242 0.0 sshuttle -r bob@gw 10.0.0.0/8''] [] =
       [\<lparr>PID = 4242, Command = ''root 4242 0.0 sshuttle -r bob@gw 10.0.0.0/8'',
         Destination = ''bob@gw''\<rparr>]"
    by code_simp
  ultimately show ?thesis by (simp only: getActiveTunnels.simps)
qed

text \<open>
  C4. With one active session and three configured definitions the catalog is, in this
  order: the header CURRENT TUNNEL, the row of the active session, a separator, the header
  AVAILABLE TUNNELS, the three rows of the definitions in their order, a separator and the
  row "Add New Tunnel"; nothing is logged.
\<close>

theorem catalog_one_active_three_definitions:
  assumes "getActiveTunnels (ps_aux w) = Inr [t]"
    and "config_file w = ConfigLoaded \<lparr>Tunnels = [d1, d2, d3]\<rparr>"
  shows "loadAllItems debugMode w =
           ([], Inr [sectionItem ''CURRENT TUNNEL'', activeItem t, sectionItem [],
                     sectionItem ''AVAILABLE TUNNELS'',
                     tunnelItem debugMode d1, tunnelItem debugMode d2, tunnelItem debugMode d3,
                     sectionItem [], addNewItem])"
  using assms by (simp add: loadAllItems_def)

theorem catalog_one_active_three_definitions_witness:
  "loadAllItems False
     \<lparr>ps_aux = Inr (''USER PID'' @ [CHR 0x0A] @ ''root 4242 0.0 sshuttle -r bob@gw 10.0.0.0/8''
                    @ [CHR 0x0A]),
      kill_cmd = (\<lambda>_. None),
      config_file = ConfigLoaded \<lparr>Tunnels =
        [\<lparr>Name = ''a'', Host = ''h1'', User = ''u'', Subnets = ''10.0.0.0/8'', ExtraArgs = []\<rparr>,
         \<lparr>Name = ''b'', Host = ''h2'', User = ''u'', Subnets = ''10.1.0.0/16'',
           ExtraArgs = ''--dns''\<rparr>,
         \<lparr>Name = ''c'', Host = ''h3'', User = ''u'', Subnets = ''10.2.0.0/16'',
           ExtraArgs = ''-i k.pem''\<rparr>]\<rparr>,
      sh_cmd = (\<lambda>_. None)\<rparr> =
   ([], Inr [sectionItem ''CURRENT TUNNEL'',
             activeItem \<lparr>PID = 4242, Command = ''root 4242 0.0 sshuttle -r bob@gw 10.0.0.0/8'',
                         Destination = ''bob@gw''\<rparr>,
             sectionItem [], sectionItem ''AVAILABLE TUNNELS'',
             tunnelItem False
               \<lparr>Name = ''a'', Host = ''h1'', User = ''u'', Subnets = ''10.0.0.0/8'',
                 ExtraArgs = []\<rparr>,
             tunnelItem False
               \<lparr>Name = ''b'', Host = ''h2'', User = ''u'', Subnets = ''10.1.0.0/16'',
                 ExtraArgs = ''--dns''\<rparr>,
             tunnelItem False
               \<lparr>Name = ''c'', Host = ''h3'', User = ''u'', Subnets = ''10.2.0.0/16'',
                 ExtraArgs = ''-i k.pem''\<rparr>,
             sectionItem [], addNewItem])"
  by (rule catalog_one_active_three_definitions) (simp_all only: world.simps scan_sample)

lemma loadAllItems_succeeds:
  assumes "loadConfigTunnels d (config_file w) = Inr cis"
  shows "\<exists>logged its. loadAllItems d w = (logged, Inr its)"
  using loadAllItems_result [OF assms] by (cases "loadAllItems d w") auto

lemma scan_two_sample:
  "getActiveTunnels
     (Inr (''root 4242 0.0 sshuttle -r bob@gw 10.0.0.0/8'' @ [CHR 0x0A]
           @ ''root 4343 0.0 sshuttle -r amy@gw 10.1.0.0/16'' @ [CHR 0x0A])) =
   Inr [\<lparr>PID = 4242, Command = ''root 4242 0.0 sshuttle -r bob@gw 10.0.0.0/8'',
         Destination = ''bob@gw''\<rparr>,
        \<lparr>PID = 4343, Command = ''root 4343 0.0 sshuttle -r amy@gw 10.1.0.0/16'',
         Destination = ''amy@gw''\<rparr>]"
proof -
  have "Scanner_lines (''root 4242 0.0 sshuttle -r bob@gw 10.0.0.0/8'' @ [CHR 0x0A]
          @ ''root 4343 0.0 sshuttle -r amy@gw 10.1.0.0/16'' @ [CHR 0x0A]) =
        [''root 4242 0.0 sshuttle -r bob@gw 10.0.0.0/8'',
         ''root 4343 0.0 sshuttle -r amy@gw 10.1.0.0/16'']"
    by (simp add: Scanner_lines_def MaxScanTokenSize_def dropCR_def)
  moreover have
    "scan_loop [''root 4242 0.0 sshuttle -r bob@gw 10.0.0.0/8'',
                ''root 4343 0.0 sshuttle -r amy@gw 10.1.0.0/16''] [] =
       [\<lparr>PID = 4242, Command = ''root 4242 0.0 sshuttle -r bob@gw 10.0.0.0/8'',
         Destination = ''bob@gw''\<rparr>,
        \<lparr>PID = 4343, Command = ''root 4343 0.0 sshuttle -r amy@gw 10.1.0.0/16'',
         Destination = ''amy@gw''\<rparr>]"
    by code_simp
  ultimately show ?thesis by (simp only: getActiveTunnels.simps)
qed

text \<open>
  C5. Whatever sequence of active sessions the scan returns, the catalog holds at most one
  row of an active session: none when the sequence is empty, and otherwise exactly the row
  of its first element.
\<close>

theorem catalog_at_most_one_active_row:
  assumes "getActiveTunnels (ps_aux w) = Inr ts"
    and "loadAllItems debugMode w = (logged, Inr its)"
  shows "filter (\<lambda>i. itemType i = ItemActiveTunnel) its =
           (case ts of [] \<Rightarrow> [] | t # _ \<Rightarrow> [activeItem t])
         \<and> length (filter (\<lambda>i. itemType i = ItemActiveTunnel) its) \<le> 1"
proof -
  from assms(2) obtain cis where cis: "loadConfigTunnels debugMode (config_file w) = Inr cis"
    by (auto simp: loadAllItems_def split: sum.splits prod.splits)
  then have none: "filter (\<lambda>i. itemType i = ItemActiveTunnel) cis = []"
    by (auto simp: filter_empty_conv dest: loadConfigTunnels_types)
  from loadAllItems_result [OF cis] assms
  have "its = (case ts of t # _ \<Rightarrow> [sectionItem ''CURRENT TUNNEL'', activeItem t, sectionItem []]
                | [] \<Rightarrow> [])
              @ sectionItem ''AVAILABLE TUNNELS'' # cis @ [sectionItem [], addNewItem]"
    by (simp split: list.splits)
  with none show ?thesis
    by (simp add: sectionItem_def activeItem_def addNewItem_def split: list.splits)
qed

theorem catalog_at_most_one_active_row_witness:
  "getActiveTunnels
     (ps_aux \<lparr>ps_aux = Inr (''root 4242 0.0 sshuttle -r bob@gw 10.0.0.0/8'' @ [CHR 0x0A]
                             @ ''root 4343 0.0 sshuttle -r amy@gw 10.1.0.0/16'' @ [CHR 0x0A]),
               kill_cmd = (\<lambda>_. None), config_file = ConfigNotExist,
               sh_cmd = (\<lambda>_. None)\<rparr>) =
     Inr [\<lparr>PID = 4242, Command = ''root 4242 0.0 sshuttle -r bob@gw 10.0.0.0/8'',
           Destination = ''bob@gw''\<rparr>,
          \<lparr>PID = 4343, Command = ''root 4343 0.0 sshuttle -r amy@gw 10.1.0.0/16'',
           Destination = ''amy@gw''\<rparr>]
   \<and> (\<exists>logged its.
         loadAllItems False
           \<lparr>ps_aux = Inr (''root 4242 0.0 sshuttle -r bob@gw 10.0.0.0/8'' @ [CHR 0x0A]
                          @ ''root 4343 0.0 sshuttle -r amy@gw 10.1.0.0/16'' @ [CHR 0x0A]),
            kill_cmd = (\<lambda>_. None), config_file = ConfigNotExist,
            sh_cmd = (\<lambda>_. None)\<rparr> = (logged, Inr its)
         \<and> filter (\<lambda>i. itemType i = ItemActiveTunnel) its =
             [activeItem \<lparr>PID = 4242, Command = ''root 4242 0.0 sshuttle -r bob@gw 10.0.0.0/8'',
                          Destination = ''bob@gw''\<rparr>]
         \<and> length (filter (\<lambda>i. itemType i = ItemActiveTunnel) its) \<le> 1)"
proof -
  let ?w = "\<lparr>ps_aux = Inr (''root 4242 0.0 sshuttle -r bob@gw 10.0.0.0/8'' @ [CHR 0x0A]
                 @ ''root 4343 0.0 sshuttle -r amy@gw 10.1.0.0/16'' @ [CHR 0x0A]),
             kill_cmd = (\<lambda>_. None), config_file = ConfigNotExist, sh_cmd = (\<lambda>_. None)\<rparr>"
  let ?t1 = "\<lparr>PID = 4242, Command = ''root 4242 0.0 sshuttle -r bob@gw 10.0.0.0/8'',
              Destination = ''bob@gw''\<rparr>"
  let ?t2 = "\<lparr>PID = 4343, Command = ''root 4343 0.0 sshuttle -r amy@gw 10.1.0.0/16'',
              Destination = ''amy@gw''\<rparr>"
  have scan: "getActiveTunnels (ps_aux ?w) = Inr [?t1, ?t2]"
    by (simp only: world.simps scan_two_sample)
  have "loadConfigTunnels False (config_file ?w) = Inr [defaultConfigItem]"
    by simp
  then obtain logged its where load: "loadAllItems False ?w = (logged, Inr its)"
    using loadAllItems_succeeds by blast
  from catalog_at_most_one_active_row [OF scan load]
  have "filter (\<lambda>i. itemType i = ItemActiveTunnel) its = [activeItem ?t1]"
    and "length (filter (\<lambda>i. itemType i = ItemActiveTunnel) its) \<le> 1"
    by simp_all
  with scan load show ?thesis by blast
qed

text \<open>
  C8. When \<open>ps aux\<close> fails, the error is logged and the catalog is the one built for an
  empty list of active sessions: it has no CURRENT TUNNEL section, and the build succeeds
  whenever the configuration loads.
\<close>

theorem scan_error_treated_as_no_sessions:
  assumes "ps_aux w = Inl err"
    and "getActiveTunnels (ps_aux w') = Inr []"
    and "config_file w' = config_file w"
  shows "fst (loadAllItems debugMode w) = [Log (''Error getting active tunnels: '' @ err)]
         \<and> snd (loadAllItems debugMode w) = snd (loadAllItems debugMode w')
         \<and> (\<forall>cis. loadConfigTunnels debugMode (config_file w) = Inr cis \<longrightarrow>
               snd (loadAllItems debugMode w) =
                 Inr (sectionItem ''AVAILABLE TUNNELS'' # cis @ [sectionItem [], addNewItem]))"
  using assms by (simp add: loadAllItems_def split: sum.splits)

theorem scan_error_treated_as_no_sessions_witness:
  "loadAllItems False
     \<lparr>ps_aux = Inl ''exit status 1'', kill_cmd = (\<lambda>_. None), config_file = ConfigNotExist,
      sh_cmd = (\<lambda>_. None)\<rparr> =
   ([Log ''Error getting active tunnels: exit status 1''],
    Inr [sectionItem ''AVAILABLE TUNNELS'', defaultConfigItem, sectionItem [], addNewItem])"
proof -
  let ?w = "\<lparr>ps_aux = Inl ''exit status 1'', kill_cmd = (\<lambda>_. None),
             config_file = ConfigNotExist, sh_cmd = (\<lambda>_. None)\<rparr>"
  let ?w' = "\<lparr>ps_aux = Inr [], kill_cmd = (\<lambda>_. None),
              config_file = ConfigNotExist, sh_cmd = (\<lambda>_. None)\<rparr>"
  have a: "ps_aux ?w = Inl ''exit status 1''" by simp
  have b: "getActiveTunnels (ps_aux ?w') = Inr []" by (simp add: Scanner_lines_def)
  have c: "config_file ?w' = config_file ?w" by simp
  note th = scan_error_treated_as_no_sessions [OF a b c, of False]
  from th have "fst (loadAllItems False ?w) =
      [Log (''Error getting active tunnels: '' @ ''exit status 1'')]"
    by (rule conjunct1)
  moreover from th have "loadConfigTunnels False (config_file ?w) = Inr [defaultConfigItem] \<longrightarrow>
      snd (loadAllItems False ?w) =
        Inr (sectionItem ''AVAILABLE TUNNELS'' # [defaultConfigItem] @ [sectionItem [], addNewItem])"
    by blast
  ultimately have "fst (loadAllItems False ?w) =
      [Log ''Error getting active tunnels: exit status 1'']"
    and "snd (loadAllItems False ?w) =
           Inr [sectionItem ''AVAILABLE TUNNELS'', defaultConfigItem, sectionItem [], addNewItem]"
    by simp_all
  then show ?thesis by (simp add: prod_eq_iff)
qed

section \<open>Properties of the selection controller\<close>

lemma Update_enter: "Update w lu (KeyMsg ''enter'') m = Inr (confirm w m)"
  by (simp add: Update_def)

lemma confirm_quits: "fst (snd (confirm w m)) = Quit"
  by (simp add: confirm_def split: option.splits itemType.splits prod.splits)

text \<open>
  C7. Confirming while the item under the cursor is not selectable (a section header or a
  separator) changes nothing in the model and causes no event, and the choice it leaves
  behind is the empty one, on which the end of \<open>main\<close> does nothing.
\<close>

theorem confirm_non_selectable_noop:
  assumes "SelectedItem (list m) = Some i" and "\<not> isSelectableItem i"
  shows "Update w lu (KeyMsg ''enter'') m = Inr (m, Quit, [])
         \<and> (choice m = [] \<longrightarrow> handleChoice w m = [])"
  using assms by (simp add: Update_enter confirm_def handleChoice_def)

theorem confirm_non_selectable_noop_witness:
  "Update \<lparr>ps_aux = Inr [], kill_cmd = (\<lambda>_. None), config_file = ConfigNotExist,
            sh_cmd = (\<lambda>_. None)\<rparr>
     \<lparr>list_Update = (\<lambda>_ l. (l, NoCmd)), list_SetWidth = (\<lambda>wd l. l\<lparr>width := wd\<rparr>)\<rparr>
     (KeyMsg ''enter'')
     \<lparr>list = \<lparr>items = [sectionItem ''AVAILABLE TUNNELS'', defaultConfigItem], filtered = None,
               index = 0, width = 80\<rparr>,
      choice = [], quitting = False\<rparr> =
   Inr (\<lparr>list = \<lparr>items = [sectionItem ''AVAILABLE TUNNELS'', defaultConfigItem], filtered = None,
                   index = 0, width = 80\<rparr>,
         choice = [], quitting = False\<rparr>, Quit, [])
   \<and> handleChoice \<lparr>ps_aux = Inr [], kill_cmd = (\<lambda>_. None), config_file = ConfigNotExist,
                    sh_cmd = (\<lambda>_. None)\<rparr>
        \<lparr>list = \<lparr>items = [sectionItem ''AVAILABLE TUNNELS'', defaultConfigItem], filtered = None,
                  index = 0, width = 80\<rparr>,
         choice = [], quitting = False\<rparr> = []"
proof -
  let ?w = "\<lparr>ps_aux = Inr [], kill_cmd = (\<lambda>_. None), config_file = ConfigNotExist,
             sh_cmd = (\<lambda>_. None)\<rparr>"
  let ?wg = "\<lparr>list_Update = (\<lambda>_ l. (l, NoCmd)),
              list_SetWidth = (\<lambda>wd l. l\<lparr>width := wd\<rparr>)\<rparr>"
  let ?m = "\<lparr>list = \<lparr>items = [sectionItem ''AVAILABLE TUNNELS'', defaultConfigItem],
                      filtered = None, index = 0, width = 80\<rparr>,
             choice = [], quitting = False\<rparr>"
  have sel: "SelectedItem (list ?m) = Some (sectionItem ''AVAILABLE TUNNELS'')"
    by (simp add: SelectedItem_def VisibleItems_def)
  have "strings_Contains ''AVAILABLE TUNNELS'' ''TUNNEL''"
    by code_simp
  then have non: "\<not> isSelectableItem (sectionItem ''AVAILABLE TUNNELS'')"
    by (simp add: isSelectableItem_def sectionItem_def)
  from confirm_non_selectable_noop [OF sel non, of ?w ?wg] show ?thesis by simp
qed

lemma drain_unread:
  "drain w wg k m xs = Inr (mf, evs, unread) \<Longrightarrow> unread = drop k xs"
proof (induction w wg k m xs arbitrary: mf evs unread rule: drain.induct)
  case (1 w wg m xs)
  then show ?case by simp
next
  case (2 w wg k m)
  then show ?case by simp
next
  case (3 w wg k m x xs)
  from "3.prems" obtain m' c evs1 where upd: "Update w wg x m = Inr (m', c, evs1)"
    by (auto split: sum.splits)
  with "3.prems" obtain evs2 where "drain w wg k m' xs = Inr (mf, evs2, unread)"
    by (auto split: sum.splits)
  with "3.IH" [OF upd] show ?case by simp
qed

text \<open>
  C10, as the code has it. Whatever the catalog and the cursor, also on an entry that is
  not selectable, the key "enter" makes \<open>Update\<close> return the quit command, and never
  panics. The session ends when the runtime receives the quit message that this command
  produces: when no input is delivered before it, the run ends at the "enter" and leaves
  all later messages unread; otherwise exactly the \<open>queued\<close> messages delivered before
  it are still processed, and nothing after them.
\<close>

theorem confirm_always_quits:
  "(\<exists>m' evs. Update w wg (KeyMsg ''enter'') m = Inr (m', Quit, evs)
       \<and> Run w wg 0 m (KeyMsg ''enter'' # rest) = Inr (m', evs, rest))
   \<and> (case Run w wg queued m (KeyMsg ''enter'' # rest) of
         Inl p \<Rightarrow> True
       | Inr (mf, evs, unread) \<Rightarrow> unread = drop queued rest)"
proof
  obtain m' c evs where c: "confirm w m = (m', c, evs)"
    by (cases "confirm w m") auto
  with confirm_quits [of w m] have "c = Quit" by simp
  with c show "\<exists>m' evs. Update w wg (KeyMsg ''enter'') m = Inr (m', Quit, evs)
       \<and> Run w wg 0 m (KeyMsg ''enter'' # rest) = Inr (m', evs, rest)"
    by (simp add: Update_enter)
next
  obtain m' c evs where c: "confirm w m = (m', c, evs)"
    by (cases "confirm w m") auto
  with confirm_quits [of w m] have q: "c = Quit" by simp
  show "case Run w wg queued m (KeyMsg ''enter'' # rest) of
          Inl p \<Rightarrow> True
        | Inr (mf, evs, unread) \<Rightarrow> unread = drop queued rest"
  proof (cases "drain w wg queued m' rest")
    case (Inl p)
    with c q show ?thesis by (simp add: Update_enter)
  next
    case (Inr r)
    obtain mf evs' unread where r: "r = (mf, evs', unread)" by (cases r) auto
    with Inr have "unread = drop queued rest" by (auto dest: drain_unread)
    with Inr r c q show ?thesis by (simp add: Update_enter)
  qed
qed

theorem confirm_always_quits_witness:
  "(\<exists>m' evs.
      Update \<lparr>ps_aux = Inr [], kill_cmd = (\<lambda>_. None), config_file = ConfigNotExist,
               sh_cmd = (\<lambda>_. None)\<rparr>
        \<lparr>list_Update = (\<lambda>_ l. (l, NoCmd)), list_SetWidth = (\<lambda>wd l. l\<lparr>width := wd\<rparr>)\<rparr>
        (KeyMsg ''enter'')
        \<lparr>list = \<lparr>items = [sectionItem ''AVAILABLE TUNNELS'', defaultConfigItem],
                  filtered = None, index = 0, width = 80\<rparr>,
         choice = [], quitting = False\<rparr> = Inr (m', Quit, evs)
      \<and> Run \<lparr>ps_aux = Inr [], kill_cmd = (\<lambda>_. None), config_file = ConfigNotExist,
               sh_cmd = (\<lambda>_. None)\<rparr>
          \<lparr>list_Update = (\<lambda>_ l. (l, NoCmd)), list_SetWidth = (\<lambda>wd l. l\<lparr>width := wd\<rparr>)\<rparr>
          0
          \<lparr>list = \<lparr>items = [sectionItem ''AVAILABLE TUNNELS'', defaultConfigItem],
                    filtered = None, index = 0, width = 80\<rparr>,
           choice = [], quitting = False\<rparr>
          (KeyMsg ''enter'' # [KeyMsg ''down'', KeyMsg ''down'']) =
        Inr (m', evs, [KeyMsg ''down'', KeyMsg ''down'']))
   \<and> (case Run \<lparr>ps_aux = Inr [], kill_cmd = (\<lambda>_. None), config_file = ConfigNotExist,
                 sh_cmd = (\<lambda>_. None)\<rparr>
            \<lparr>list_Update = (\<lambda>_ l. (l, NoCmd)), list_SetWidth = (\<lambda>wd l. l\<lparr>width := wd\<rparr>)\<rparr>
            1
            \<lparr>list = \<lparr>items = [sectionItem ''AVAILABLE TUNNELS'', defaultConfigItem],
                      filtered = None, index = 0, width = 80\<rparr>,
             choice = [], quitting = False\<rparr>
            (KeyMsg ''enter'' # [KeyMsg ''down'', KeyMsg ''down'']) of
         Inl p \<Rightarrow> True
       | Inr (mf, evs, unread) \<Rightarrow> unread = drop 1 [KeyMsg ''down'', KeyMsg ''down''])"
  by (rule confirm_always_quits)

text \<open>
  With one message delivered before the quit message, a "down" that follows the "enter"
  is still processed: the cursor moves from the row of the tunnel to "Add New Tunnel"
  after the choice was made.
\<close>

theorem confirm_then_queued_key_counterexample:
  "Run \<lparr>ps_aux = Inr [], kill_cmd = (\<lambda>_. None), config_file = ConfigNotExist,
        sh_cmd = (\<lambda>_. None)\<rparr>
     \<lparr>list_Update = (\<lambda>_ l. (l, NoCmd)), list_SetWidth = (\<lambda>wd l. l\<lparr>width := wd\<rparr>)\<rparr>
     1
     \<lparr>list = \<lparr>items = [sectionItem ''AVAILABLE TUNNELS'', defaultConfigItem, sectionItem [],
                        addNewItem],
               filtered = None, index = 1, width = 80\<rparr>,
      choice = [], quitting = False\<rparr>
     [KeyMsg ''enter'', KeyMsg ''down''] =
   Inr (\<lparr>list = \<lparr>items = [sectionItem ''AVAILABLE TUNNELS'', defaultConfigItem, sectionItem [],
                            addNewItem],
                   filtered = None, index = 3, width = 80\<rparr>,
         choice = ''sshuttle -r user@example.com 10.0.0.0/8'', quitting = False\<rparr>, [], [])"
proof -
  let ?w = "\<lparr>ps_aux = Inr [], kill_cmd = (\<lambda>_. None), config_file = ConfigNotExist,
             sh_cmd = (\<lambda>_. None)\<rparr>"
  let ?wg = "\<lparr>list_Update = (\<lambda>_ l. (l, NoCmd)),
              list_SetWidth = (\<lambda>wd l. l\<lparr>width := wd\<rparr>)\<rparr>"
  let ?its = "[sectionItem ''AVAILABLE TUNNELS'', defaultConfigItem, sectionItem [], addNewItem]"
  let ?m = "\<lparr>list = \<lparr>items = ?its, filtered = None, index = 1, width = 80\<rparr>,
             choice = [], quitting = False\<rparr>"
  let ?m1 = "\<lparr>list = \<lparr>items = ?its, filtered = None, index = 1, width = 80\<rparr>,
              choice = ''sshuttle -r user@example.com 10.0.0.0/8'', quitting = False\<rparr>"
  let ?m2 = "\<lparr>list = \<lparr>items = ?its, filtered = None, index = 3, width = 80\<rparr>,
              choice = ''sshuttle -r user@example.com 10.0.0.0/8'', quitting = False\<rparr>"
  have "isSelectableItem defaultConfigItem"
    by (simp add: isSelectableItem_def defaultConfigItem_def)
  then have enter: "Update ?w ?wg (KeyMsg ''enter'') ?m = Inr (?m1, Quit, [])"
    by (simp add: Update_enter confirm_def SelectedItem_def VisibleItems_def killAllTunnels_def
        Scanner_lines_def defaultConfigItem_def)
  have non2: "\<not> isSelectableItem (sectionItem [])"
    by (simp add: isSelectableItem_def sectionItem_def)
  have "\<not> strings_Contains ''+ Add New Tunnel'' ''TUNNEL''" by code_simp
  then have sel3: "isSelectableItem addNewItem"
    by (simp add: isSelectableItem_def addNewItem_def)
  have "scan_down ?its (Suc (Suc (Suc 0))) = Some (Suc (Suc (Suc 0)))"
    using sel3 by (simp add: scan_down.simps [of ?its "Suc (Suc (Suc 0))"])
  with non2 have "scan_down ?its (Suc (Suc 0)) = Some (Suc (Suc (Suc 0)))"
    by (simp add: scan_down.simps [of ?its "Suc (Suc 0)"])
  then have down: "Update ?w ?wg (KeyMsg ''down'') ?m1 = Inr (?m2, NoCmd, [])"
    by (simp add: Update_def Select_def)
  have "drain ?w ?wg 1 ?m1 [KeyMsg ''down''] = Inr (?m2, [], [])"
    using down by simp
  with enter show ?thesis
    by simp
qed

lemma kill_loop_kills:
  "filter (\<lambda>e. case e of Kill _ \<Rightarrow> True | _ \<Rightarrow> False) (kill_loop w ts) =
     map (\<lambda>t. Kill (PID t)) ts"
  by (induction ts) (auto simp: killTunnel_def split: option.splits)

lemma kill_loop_events:
  "e \<in> set (kill_loop w ts) \<Longrightarrow> (case e of Kill _ \<Rightarrow> True | Log _ \<Rightarrow> True | _ \<Rightarrow> False)"
  by (induction ts) (auto simp: killTunnel_def split: option.splits)

lemma strings_HasPrefix_iff_prefix: "strings_HasPrefix s p \<longleftrightarrow> prefix p s"
proof
  assume "strings_HasPrefix s p"
  then have "s = p @ drop (length p) s"
    unfolding strings_HasPrefix_def by (metis append_take_drop_id)
  then show "prefix p s" by (rule prefixI)
next
  assume "prefix p s"
  then show "strings_HasPrefix s p"
    by (auto simp: strings_HasPrefix_def elim!: prefixE)
qed

lemma sshuttle_choice_is_launched:
  assumes "strings_HasPrefix c ''sshuttle''"
  shows "handleChoice w (m\<lparr>choice := c\<rparr>) =
           [Print ''Starting tunnel...'', Shell c]
           @ (case sh_cmd w c of None \<Rightarrow> [] | Some err \<Rightarrow> [Print (''Error executing command: '' @ err)])"
proof -
  from assms obtain r where c: "c = ''sshuttle'' @ r"
    unfolding strings_HasPrefix_iff_prefix by (auto elim: prefixE)
  show ?thesis
    unfolding c by (simp add: handleChoice_def strings_HasPrefix_def)
qed

lemma catalog_rows_launchable:
  assumes "loadAllItems d w = (logged, Inr its)" and "i \<in> set its"
    and "itemType i = ItemAvailableTunnel"
  shows "strings_HasPrefix (command i) ''sshuttle''"
proof -
  from assms(1) obtain cis where cis: "loadConfigTunnels d (config_file w) = Inr cis"
    by (auto simp: loadAllItems_def split: sum.splits prod.splits)
  from loadAllItems_result [OF cis] assms(1)
  have "its = (case getActiveTunnels (ps_aux w) of
                 Inr (t # _) \<Rightarrow> [sectionItem ''CURRENT TUNNEL'', activeItem t, sectionItem []]
               | _ \<Rightarrow> [])
              @ sectionItem ''AVAILABLE TUNNELS'' # cis @ [sectionItem [], addNewItem]"
    by simp
  with assms(2,3) have "i \<in> set cis"
    by (auto simp: sectionItem_def activeItem_def addNewItem_def split: sum.splits list.splits)
  with cis show ?thesis
    by (cases "config_file w")
      (auto simp: defaultConfigItem_def tunnelItem_def tunnelCommand_def strings_HasPrefix_def)
qed

text \<open>
  C3. Confirming the row of an available tunnel (whose command, as for every such row of
  the catalog, starts with \<open>sshuttle\<close>) scans the process table again and issues one
  \<open>kill\<close> for every session found, in order, logging the kills that fail; a failing scan
  is logged and kills nothing. The events of \<open>Update\<close> are only kills and log lines, the
  choice it returns is the command of the row, and only then, at the end of \<open>main\<close>, is
  that command handed to the shell.
\<close>

theorem confirm_available_kills_before_launch:
  assumes "SelectedItem (list m) = Some i" and "itemType i = ItemAvailableTunnel"
    and "strings_HasPrefix (command i) ''sshuttle''"
  shows "\<exists>evs. Update w lu (KeyMsg ''enter'') m = Inr (m\<lparr>choice := command i\<rparr>, Quit, evs)
           \<and> (case getActiveTunnels (ps_aux w) of
                Inr ts \<Rightarrow>
                  evs = kill_loop w ts
                  \<and> filter (\<lambda>e. case e of Kill _ \<Rightarrow> True | _ \<Rightarrow> False) evs =
                      map (\<lambda>t. Kill (PID t)) ts
              | Inl err \<Rightarrow> evs = [Log (''Warning: Failed to kill existing tunnels: '' @ err)])
           \<and> list_all (\<lambda>e. case e of Kill _ \<Rightarrow> True | Log _ \<Rightarrow> True | _ \<Rightarrow> False) evs
           \<and> handleChoice w (m\<lparr>choice := command i\<rparr>) =
               [Print ''Starting tunnel...'', Shell (command i)]
               @ (case sh_cmd w (command i) of
                    None \<Rightarrow> []
                  | Some err \<Rightarrow> [Print (''Error executing command: '' @ err)])"
proof -
  from assms(2) have sel: "isSelectableItem i"
    by (simp add: isSelectableItem_def)
  show ?thesis
  proof (cases "getActiveTunnels (ps_aux w)")
    case (Inl err)
    with assms(1,2) sel
    have "Update w lu (KeyMsg ''enter'') m =
            Inr (m\<lparr>choice := command i\<rparr>, Quit,
                 [Log (''Warning: Failed to kill existing tunnels: '' @ err)])"
      by (simp add: Update_enter confirm_def killAllTunnels_def)
    with Inl sshuttle_choice_is_launched [OF assms(3)] show ?thesis by simp
  next
    case (Inr ts)
    with assms(1,2) sel
    have "Update w lu (KeyMsg ''enter'') m = Inr (m\<lparr>choice := command i\<rparr>, Quit, kill_loop w ts)"
      by (simp add: Update_enter confirm_def killAllTunnels_def)
    moreover have "list_all (\<lambda>e. case e of Kill _ \<Rightarrow> True | Log _ \<Rightarrow> True | _ \<Rightarrow> False)
                     (kill_loop w ts)"
      unfolding list_all_iff using kill_loop_events [of _ w ts] by blast
    ultimately show ?thesis
      using Inr sshuttle_choice_is_launched [OF assms(3)] kill_loop_kills [of w ts] by simp
  qed
qed

theorem confirm_available_kills_before_launch_witness:
  "Update
     \<lparr>ps_aux = Inr (''USER PID'' @ [CHR 0x0A] @ ''root 4242 0.0 sshuttle -r bob@gw 10.0.0.0/8''
                    @ [CHR 0x0A]),
      kill_cmd = (\<lambda>_. None), config_file = ConfigNotExist, sh_cmd = (\<lambda>_. None)\<rparr>
     \<lparr>list_Update = (\<lambda>_ l. (l, NoCmd)), list_SetWidth = (\<lambda>wd l. l\<lparr>width := wd\<rparr>)\<rparr>
     (KeyMsg ''enter'')
     \<lparr>list = \<lparr>items = [sectionItem ''AVAILABLE TUNNELS'', defaultConfigItem], filtered = None,
               index = 1, width = 80\<rparr>,
      choice = [], quitting = False\<rparr> =
   Inr (\<lparr>list = \<lparr>items = [sectionItem ''AVAILABLE TUNNELS'', defaultConfigItem], filtered = None,
                   index = 1, width = 80\<rparr>,
         choice = ''sshuttle -r user@example.com 10.0.0.0/8'', quitting = False\<rparr>,
        Quit, [Kill 4242])
   \<and> handleChoice
       \<lparr>ps_aux = Inr (''USER PID'' @ [CHR 0x0A] @ ''root 4242 0.0 sshuttle -r bob@gw 10.0.0.0/8''
                      @ [CHR 0x0A]),
        kill_cmd = (\<lambda>_. None), config_file = ConfigNotExist, sh_cmd = (\<lambda>_. None)\<rparr>
       \<lparr>list = \<lparr>items = [sectionItem ''AVAILABLE TUNNELS'', defaultConfigItem], filtered = None,
                 index = 1, width = 80\<rparr>,
        choice = ''sshuttle -r user@example.com 10.0.0.0/8'', quitting = False\<rparr> =
     [Print ''Starting tunnel...'', Shell ''sshuttle -r user@example.com 10.0.0.0/8'']"
proof -
  let ?w = "\<lparr>ps_aux = Inr (''USER PID'' @ [CHR 0x0A]
                 @ ''root 4242 0.0 sshuttle -r bob@gw 10.0.0.0/8'' @ [CHR 0x0A]),
             kill_cmd = (\<lambda>_. None), config_file = ConfigNotExist, sh_cmd = (\<lambda>_. None)\<rparr>"
  let ?wg = "\<lparr>list_Update = (\<lambda>_ l. (l, NoCmd)),
              list_SetWidth = (\<lambda>wd l. l\<lparr>width := wd\<rparr>)\<rparr>"
  let ?m = "\<lparr>list = \<lparr>items = [sectionItem ''AVAILABLE TUNNELS'', defaultConfigItem],
                      filtered = None, index = 1, width = 80\<rparr>,
             choice = [], quitting = False\<rparr>"
  have sel: "SelectedItem (list ?m) = Some defaultConfigItem"
    by (simp add: SelectedItem_def VisibleItems_def)
  have ty: "itemType defaultConfigItem = ItemAvailableTunnel"
    by (simp add: defaultConfigItem_def)
  have pre: "strings_HasPrefix (command defaultConfigItem) ''sshuttle''"
    by (simp add: defaultConfigItem_def strings_HasPrefix_def)
  have scan: "getActiveTunnels (ps_aux ?w) =
      Inr [\<lparr>PID = 4242, Command = ''root 4242 0.0 sshuttle -r bob@gw 10.0.0.0/8'',
            Destination = ''bob@gw''\<rparr>]"
    by (simp only: world.simps scan_sample)
  from confirm_available_kills_before_launch [OF sel ty pre, of ?w ?wg]
  show ?thesis
    unfolding scan by (auto simp: killTunnel_def defaultConfigItem_def)
qed





section \<open>Properties of the command builder\<close>

lemma strings_Contains_iff_sublist: "strings_Contains s p \<longleftrightarrow> sublist p s"
  unfolding strings_Contains_def
  by (induction s) (auto simp: sublist_Cons_right)

lemma sublist_split_at:
  assumes "c \<notin> set p"
  shows "sublist p (xs @ c # ys) \<longleftrightarrow> sublist p xs \<or> sublist p ys"
proof
  assume "sublist p (xs @ c # ys)"
  then consider "sublist p xs" | "sublist p (c # ys)"
    | p1 p2 where "p = p1 @ p2" "suffix p1 xs" "prefix p2 (c # ys)"
    unfolding sublist_append by blast
  then show "sublist p xs \<or> sublist p ys"
  proof cases
    case 1
    then show ?thesis by simp
  next
    case 2
    then have "prefix p (c # ys) \<or> sublist p ys" by (simp add: sublist_Cons_right)
    moreover have "prefix p (c # ys) \<Longrightarrow> p = []"
      using assms by (cases p) auto
    ultimately show ?thesis by auto
  next
    case 3
    from 3(3) assms 3(1) have "p2 = []" by (cases p2) auto
    with 3(1,2) show ?thesis by auto
  qed
next
  assume "sublist p xs \<or> sublist p ys"
  then show "sublist p (xs @ c # ys)"
    by (auto simp: sublist_append sublist_Cons_right)
qed

lemma sublist_transitive:
  assumes "sublist xs ys" and "sublist ys zs"
  shows "sublist xs zs"
proof -
  from assms obtain a b c d where "ys = a @ xs @ b" and "zs = c @ ys @ d"
    by (auto simp: sublist_def)
  then have "zs = (c @ a) @ xs @ (b @ d)" by simp
  then show ?thesis unfolding sublist_def by blast
qed

lemma TrimLeftSpace_suffix: "suffix (TrimLeftSpace s) s"
proof (induction s rule: TrimLeftSpace.induct)
  case (1 s)
  show ?case
  proof (cases "space_width s = 0")
    case True
    then show ?thesis by (simp add: TrimLeftSpace.simps [of s])
  next
    case False
    with "1.IH" have "suffix (TrimLeftSpace (drop (space_width s) s)) (drop (space_width s) s)"
      by simp
    then have "suffix (TrimLeftSpace (drop (space_width s) s)) s"
      using suffix_drop suffix_order.trans by blast
    with False show ?thesis by (simp add: TrimLeftSpace.simps [of s])
  qed
qed

lemma TrimRightSpace_prefix: "prefix (TrimRightSpace s) s"
proof (induction s rule: TrimRightSpace.induct)
  case (1 s)
  show ?case
  proof (cases "space_width_last s = 0")
    case True
    then show ?thesis by (simp add: TrimRightSpace.simps [of s])
  next
    case False
    with "1.IH"
    have "prefix (TrimRightSpace (take (length s - space_width_last s) s))
            (take (length s - space_width_last s) s)"
      by simp
    then have "prefix (TrimRightSpace (take (length s - space_width_last s) s)) s"
      using take_is_prefix prefix_order.trans by blast
    with False show ?thesis by (simp add: TrimRightSpace.simps [of s])
  qed
qed

lemma strings_TrimSpace_sublist: "sublist (strings_TrimSpace s) s"
proof -
  have "sublist (TrimRightSpace (TrimLeftSpace s)) (TrimLeftSpace s)"
    using TrimRightSpace_prefix by blast
  moreover have "sublist (TrimLeftSpace s) s"
    using TrimLeftSpace_suffix by blast
  ultimately show ?thesis
    unfolding strings_TrimSpace_def by (rule sublist_transitive)
qed

lemma strings_Split_sublist: "x \<in> set (strings_Split s sep) \<Longrightarrow> sublist x s"
proof (induction s sep arbitrary: x rule: strings_Split.induct)
  case (1 s sep)
  show ?case
  proof (cases "sep = []")
    case True
    with "1.prems" have "x \<in> set (map (\<lambda>c. [c]) s)"
      by (simp add: strings_Split.simps [of s "[]"])
    then obtain c where "c \<in> set s" "x = [c]"
      by auto
    then obtain ps ss where "s = ps @ [c] @ ss"
      by (auto simp: in_set_conv_decomp)
    with \<open>x = [c]\<close> show ?thesis by (auto simp: sublist_def)
  next
    case False
    show ?thesis
    proof (cases "strings_Index s sep")
      case None
      with False "1.prems" show ?thesis by (simp add: strings_Split.simps [of s sep])
    next
      case (Some m)
      with False "1.prems"
      have "x = take m s \<or> x \<in> set (strings_Split (drop (m + length sep) s) sep)"
        by (simp add: strings_Split.simps [of s sep])
      then show ?thesis
      proof
        assume "x = take m s"
        then show ?thesis by simp
      next
        assume "x \<in> set (strings_Split (drop (m + length sep) s) sep)"
        with "1.IH" [OF False Some] have "sublist x (drop (m + length sep) s)" by simp
        then show ?thesis
          using sublist_drop sublist_transitive by blast
      qed
    qed
  qed
qed

lemma strings_Split_nonempty: "strings_Split s sep \<noteq> [] \<or> (sep = [] \<and> s = [])"
  by (simp add: strings_Split.simps [of s sep] split: option.splits)

lemma strings_Split_second:
  assumes "strings_Contains s sep" and "sep \<noteq> []"
  shows "1 < length (strings_Split s sep)"
proof -
  from assms(1) obtain m where m: "strings_Index s sep = Some m"
    by (auto simp: strings_Contains_def)
  from assms(2) strings_Split_nonempty [of "drop (m + length sep) s" sep]
  have "strings_Split (drop (m + length sep) s) sep \<noteq> []" by simp
  with m assms(2) show ?thesis
    by (cases "strings_Split (drop (m + length sep) s) sep")
      (simp_all add: strings_Split.simps [of s sep])
qed

lemma keyPath_sublist:
  assumes "strings_Contains (ExtraArgs t) ''-i ''"
  shows "sublist (keyPath t) (ExtraArgs t)"
proof -
  from assms have "1 < length (strings_Split (ExtraArgs t) ''-i '')"
    by (intro strings_Split_second) simp_all
  then have "strings_Split (ExtraArgs t) ''-i '' ! 1 \<in> set (strings_Split (ExtraArgs t) ''-i '')"
    by (rule nth_mem)
  then have "sublist (strings_Split (ExtraArgs t) ''-i '' ! 1) (ExtraArgs t)"
    by (rule strings_Split_sublist)
  with strings_TrimSpace_sublist show ?thesis
    unfolding keyPath_def using sublist_transitive by blast
qed

lemma sublist_split_at_last:
  assumes "c \<notin> set q"
  shows "sublist (q @ [c]) (xs @ c # ys) \<longleftrightarrow>
           sublist (q @ [c]) xs \<or> suffix q xs \<or> sublist (q @ [c]) ys"
proof
  assume "sublist (q @ [c]) (xs @ c # ys)"
  then consider "sublist (q @ [c]) xs" | "sublist (q @ [c]) (c # ys)"
    | p1 p2 where "q @ [c] = p1 @ p2" "suffix p1 xs" "prefix p2 (c # ys)"
    unfolding sublist_append by blast
  then show "sublist (q @ [c]) xs \<or> suffix q xs \<or> sublist (q @ [c]) ys"
  proof cases
    case 1
    then show ?thesis by simp
  next
    case 2
    then have "prefix (q @ [c]) (c # ys) \<or> sublist (q @ [c]) ys"
      by (simp add: sublist_Cons_right)
    moreover have "prefix (q @ [c]) (c # ys) \<Longrightarrow> q = []"
      using assms by (cases q) auto
    ultimately show ?thesis by auto
  next
    case 3
    show ?thesis
    proof (cases p2)
      case Nil
      with 3(1,2) show ?thesis by auto
    next
      case (Cons a p2')
      with 3(3) have a: "a = c" by simp
      have "p1 = q"
      proof (cases p2' rule: rev_cases)
        case Nil
        with 3(1) Cons a show ?thesis by simp
      next
        case (snoc p2'' b)
        with 3(1) Cons a have "q @ [c] = (p1 @ c # p2'') @ [b]" by simp
        then have "q = p1 @ c # p2''" by (simp only: append1_eq_conv)
        with assms show ?thesis by simp
      qed
      with 3(2) show ?thesis by simp
    qed
  qed
next
  assume "sublist (q @ [c]) xs \<or> suffix q xs \<or> sublist (q @ [c]) ys"
  then consider "sublist (q @ [c]) xs" | "suffix q xs" | "sublist (q @ [c]) ys"
    by blast
  then show "sublist (q @ [c]) (xs @ c # ys)"
  proof cases
    case 1
    then show ?thesis by (auto simp: sublist_append)
  next
    case 2
    then obtain a where "xs = a @ q" by (auto simp: suffix_def)
    then have "xs @ c # ys = a @ (q @ [c]) @ ys" by simp
    then show ?thesis by (simp only: sublist_appendI)
  next
    case 3
    then show ?thesis by (auto simp: sublist_append sublist_Cons_right)
  qed
qed

lemma sublist_v_space:
  "sublist ''-v '' (xs @ CHR '' '' # ys) \<longleftrightarrow>
     sublist ''-v '' xs \<or> suffix ''-v'' xs \<or> sublist ''-v '' ys"
  using sublist_split_at_last [of "CHR '' ''" "''-v''" xs ys] by simp

lemma nondebug_command_v:
  "sublist ''-v '' (tunnelCommand False t) \<longleftrightarrow>
     sublist ''-v '' (User t) \<or> sublist ''-v '' (Host t) \<or> suffix ''-v'' (Host t)
     \<or> sublist ''-v '' (Subnets t) \<or> suffix ''-v'' (Subnets t)
     \<or> sublist ''-v '' (if strings_Contains (ExtraArgs t) ''-i '' then keyPath t
                           else ExtraArgs t)"
  by (simp add: tunnelCommand_def sshCmd_def dquote_def sublist_split_at sublist_v_space
      sublist_Cons_right)

lemma debug_command_daemon:
  "sublist ''--daemon'' (tunnelCommand True t) \<longleftrightarrow>
     sublist ''--daemon'' (User t) \<or> sublist ''--daemon'' (Host t)
     \<or> sublist ''--daemon'' (Subnets t)
     \<or> sublist ''--daemon'' (if strings_Contains (ExtraArgs t) ''-i '' then keyPath t
                               else ExtraArgs t)"
  by (simp add: tunnelCommand_def sshCmd_def dquote_def sublist_split_at sublist_Cons_right)

lemma copied_extra_args_sublist:
  "sublist (if strings_Contains (ExtraArgs t) ''-i '' then keyPath t else ExtraArgs t)
     (ExtraArgs t)"
  by (simp add: keyPath_sublist)

text \<open>
  C1, what the code does on the extra arguments \<open>-i ~/.ssh/k.pem --dns\<close>: the key
  path taken by \<open>loadConfigTunnels\<close> is everything
  after the flag, \<open>~/.ssh/k.pem --dns\<close>: it does not stop at the next space, so
  \<open>--dns\<close> ends up inside the quoted \<open>--ssh-cmd\<close> option and nothing is passed through
  after it. \<open>validateSSHConnection\<close>, on the same extra arguments, takes the key path
  \<open>~/.ssh/k.pem\<close>.
\<close>

theorem key_path_takes_trailing_arguments:
  "keyPath \<lparr>Name = ''AWS VPC'', Host = ''bastion.example.com'', User = ''ec2-user'',
            Subnets = ''172.16.0.0/12'', ExtraArgs = ''-i ~/.ssh/k.pem --dns''\<rparr> =
     ''~/.ssh/k.pem --dns''
   \<and> tunnelCommand False
        \<lparr>Name = ''AWS VPC'', Host = ''bastion.example.com'', User = ''ec2-user'',
         Subnets = ''172.16.0.0/12'', ExtraArgs = ''-i ~/.ssh/k.pem --dns''\<rparr> =
     ''sshuttle -r ec2-user@bastion.example.com 172.16.0.0/12 --daemon --ssh-cmd='' @ [dquote]
     @ ''ssh -o StrictHostKeyChecking=no -i ~/.ssh/k.pem --dns'' @ [dquote]
   \<and> validateSSHConnection_sshArgs ''ec2-user'' ''bastion.example.com''
        ''-i ~/.ssh/k.pem --dns'' =
     [''-o'', ''ConnectTimeout=10'', ''-o'', ''BatchMode=yes'', ''-o'', ''StrictHostKeyChecking=no'',
      ''-i'', ''~/.ssh/k.pem'', ''ec2-user@bastion.example.com'', ''exit'']"
  by code_simp

text \<open>
  C2, as the code has it. Without debug mode the command contains \<open>--daemon\<close>, and in
  debug mode it contains \<open>-v \<close>. The user, host, subnets and extra arguments of the
  definition are copied into the command as they are (of the extra arguments the key path
  when they contain \<open>-i \<close>, and all of them otherwise). So the command without debug mode
  contains \<open>-v \<close> exactly when one of the copied strings contains \<open>-v \<close> or the host or
  the subnets, which a space follows, end in \<open>-v\<close>; and the command in debug mode
  contains \<open>--daemon\<close> exactly when one of the copied strings does. In particular the
  command without debug mode is free of \<open>-v \<close> when no field contains \<open>-v \<close> and
  neither host nor subnets end in \<open>-v\<close>, and the command in debug mode is free of
  \<open>--daemon\<close> when no field contains \<open>--daemon\<close>.
\<close>

theorem command_daemon_and_verbose_flags:
  "strings_Contains (tunnelCommand False t) ''--daemon''
   \<and> strings_Contains (tunnelCommand True t) ''-v ''
   \<and> (strings_Contains (tunnelCommand False t) ''-v '' \<longleftrightarrow>
        strings_Contains (User t) ''-v ''
        \<or> strings_Contains (Host t) ''-v '' \<or> suffix ''-v'' (Host t)
        \<or> strings_Contains (Subnets t) ''-v '' \<or> suffix ''-v'' (Subnets t)
        \<or> strings_Contains
             (if strings_Contains (ExtraArgs t) ''-i '' then keyPath t else ExtraArgs t) ''-v '')
   \<and> (strings_Contains (tunnelCommand True t) ''--daemon'' \<longleftrightarrow>
        strings_Contains (User t) ''--daemon'' \<or> strings_Contains (Host t) ''--daemon''
        \<or> strings_Contains (Subnets t) ''--daemon''
        \<or> strings_Contains
             (if strings_Contains (ExtraArgs t) ''-i '' then keyPath t else ExtraArgs t)
             ''--daemon'')
   \<and> (\<not> strings_Contains (User t) ''-v ''
        \<and> \<not> strings_Contains (Host t) ''-v '' \<and> \<not> suffix ''-v'' (Host t)
        \<and> \<not> strings_Contains (Subnets t) ''-v '' \<and> \<not> suffix ''-v'' (Subnets t)
        \<and> \<not> strings_Contains (ExtraArgs t) ''-v ''
      \<longrightarrow> \<not> strings_Contains (tunnelCommand False t) ''-v '')
   \<and> (\<not> strings_Contains (User t) ''--daemon'' \<and> \<not> strings_Contains (Host t) ''--daemon''
        \<and> \<not> strings_Contains (Subnets t) ''--daemon''
        \<and> \<not> strings_Contains (ExtraArgs t) ''--daemon''
      \<longrightarrow> \<not> strings_Contains (tunnelCommand True t) ''--daemon'')"
proof -
  have daemon: "strings_Contains (tunnelCommand False t) ''--daemon''"
  proof -
    have "tunnelCommand False t =
          (''sshuttle -r '' @ User t @ ''@'' @ Host t @ '' '' @ Subnets t @ '' '')
          @ ''--daemon''
          @ ('' --ssh-cmd='' @ [dquote] @ sshCmd False t @ [dquote]
             @ (if ExtraArgs t \<noteq> [] \<and> \<not> strings_Contains (ExtraArgs t) ''-i ''
                then '' '' @ ExtraArgs t else []))"
      by (simp add: tunnelCommand_def)
    then have "sublist ''--daemon'' (tunnelCommand False t)"
      by (simp only: sublist_appendI)
    then show ?thesis by (simp only: strings_Contains_iff_sublist)
  qed
  have verbose: "strings_Contains (tunnelCommand True t) ''-v ''"
  proof -
    have "tunnelCommand True t =
          ''sshuttle '' @ ''-v ''
          @ (''-r '' @ User t @ ''@'' @ Host t @ '' '' @ Subnets t
             @ '' --ssh-cmd='' @ [dquote] @ sshCmd True t @ [dquote]
             @ (if ExtraArgs t \<noteq> [] \<and> \<not> strings_Contains (ExtraArgs t) ''-i ''
                then '' '' @ ExtraArgs t else []))"
      by (simp add: tunnelCommand_def)
    then have "sublist ''-v '' (tunnelCommand True t)"
      by (simp only: sublist_appendI)
    then show ?thesis by (simp only: strings_Contains_iff_sublist)
  qed
  let ?copied = "if strings_Contains (ExtraArgs t) ''-i '' then keyPath t else ExtraArgs t"
  have v_iff: "strings_Contains (tunnelCommand False t) ''-v '' \<longleftrightarrow>
        strings_Contains (User t) ''-v ''
        \<or> strings_Contains (Host t) ''-v '' \<or> suffix ''-v'' (Host t)
        \<or> strings_Contains (Subnets t) ''-v '' \<or> suffix ''-v'' (Subnets t)
        \<or> strings_Contains ?copied ''-v ''"
    unfolding strings_Contains_iff_sublist [of _ "''-v ''"] by (rule nondebug_command_v)
  have d_iff: "strings_Contains (tunnelCommand True t) ''--daemon'' \<longleftrightarrow>
        strings_Contains (User t) ''--daemon'' \<or> strings_Contains (Host t) ''--daemon''
        \<or> strings_Contains (Subnets t) ''--daemon''
        \<or> strings_Contains ?copied ''--daemon''"
    unfolding strings_Contains_iff_sublist [of _ "''--daemon''"] by (rule debug_command_daemon)
  have copied: "strings_Contains (ExtraArgs t) p" if "strings_Contains ?copied p" for p
  proof -
    from that have "sublist p ?copied"
      by (simp only: strings_Contains_iff_sublist)
    then have "sublist p (ExtraArgs t)"
      using copied_extra_args_sublist [of t] by (rule sublist_transitive)
    then show ?thesis by (simp only: strings_Contains_iff_sublist)
  qed
  have v_free: "\<not> strings_Contains (User t) ''-v ''
        \<and> \<not> strings_Contains (Host t) ''-v '' \<and> \<not> suffix ''-v'' (Host t)
        \<and> \<not> strings_Contains (Subnets t) ''-v '' \<and> \<not> suffix ''-v'' (Subnets t)
        \<and> \<not> strings_Contains (ExtraArgs t) ''-v ''
      \<longrightarrow> \<not> strings_Contains (tunnelCommand False t) ''-v ''"
  proof (intro impI notI, elim conjE)
    assume no: "\<not> strings_Contains (User t) ''-v ''" "\<not> strings_Contains (Host t) ''-v ''"
      "\<not> suffix ''-v'' (Host t)" "\<not> strings_Contains (Subnets t) ''-v ''"
      "\<not> suffix ''-v'' (Subnets t)" "\<not> strings_Contains (ExtraArgs t) ''-v ''"
    assume "strings_Contains (tunnelCommand False t) ''-v ''"
    with v_iff no(1-5) have "strings_Contains ?copied ''-v ''" by simp
    then have "strings_Contains (ExtraArgs t) ''-v ''" by (rule copied)
    with no(6) show False by simp
  qed
  have d_free: "\<not> strings_Contains (User t) ''--daemon''
        \<and> \<not> strings_Contains (Host t) ''--daemon''
        \<and> \<not> strings_Contains (Subnets t) ''--daemon''
        \<and> \<not> strings_Contains (ExtraArgs t) ''--daemon''
      \<longrightarrow> \<not> strings_Contains (tunnelCommand True t) ''--daemon''"
  proof (intro impI notI, elim conjE)
    assume no: "\<not> strings_Contains (User t) ''--daemon''"
      "\<not> strings_Contains (Host t) ''--daemon''"
      "\<not> strings_Contains (Subnets t) ''--daemon''"
      "\<not> strings_Contains (ExtraArgs t) ''--daemon''"
    assume "strings_Contains (tunnelCommand True t) ''--daemon''"
    with d_iff no(1-3) have "strings_Contains ?copied ''--daemon''" by simp
    then have "strings_Contains (ExtraArgs t) ''--daemon''" by (rule copied)
    with no(4) show False by simp
  qed
  show ?thesis
    by (intro conjI) (fact daemon, fact verbose, fact v_iff, fact d_iff, fact v_free, fact d_free)
qed

theorem command_daemon_and_verbose_flags_witness:
  "strings_Contains
     (tunnelCommand False
        \<lparr>Name = ''AWS VPC'', Host = ''bastion-vpc.example.com'', User = ''ec2-user'',
         Subnets = ''172.16.0.0/12'', ExtraArgs = ''--verbose --dns''\<rparr>) ''--daemon''
   \<and> \<not> strings_Contains
        (tunnelCommand False
           \<lparr>Name = ''AWS VPC'', Host = ''bastion-vpc.example.com'', User = ''ec2-user'',
            Subnets = ''172.16.0.0/12'', ExtraArgs = ''--verbose --dns''\<rparr>) ''-v ''
   \<and> strings_Contains
       (tunnelCommand True
          \<lparr>Name = ''AWS VPC'', Host = ''bastion-vpc.example.com'', User = ''ec2-user'',
           Subnets = ''172.16.0.0/12'', ExtraArgs = ''--verbose --dns''\<rparr>) ''-v ''
   \<and> \<not> strings_Contains
        (tunnelCommand True
           \<lparr>Name = ''AWS VPC'', Host = ''bastion-vpc.example.com'', User = ''ec2-user'',
            Subnets = ''172.16.0.0/12'', ExtraArgs = ''--verbose --dns''\<rparr>) ''--daemon''
   \<and> strings_Contains ''bastion-vpc.example.com'' ''-v''
   \<and> strings_Contains ''--verbose --dns'' ''-v''"
proof -
  let ?t = "\<lparr>Name = ''AWS VPC'', Host = ''bastion-vpc.example.com'', User = ''ec2-user'',
             Subnets = ''172.16.0.0/12'', ExtraArgs = ''--verbose --dns''\<rparr>"
  have fields: "User ?t = ''ec2-user''" "Host ?t = ''bastion-vpc.example.com''"
    "Subnets ?t = ''172.16.0.0/12''" "ExtraArgs ?t = ''--verbose --dns''"
    by simp_all
  have v1: "\<not> strings_Contains ''ec2-user'' ''-v ''" by code_simp
  have v2: "\<not> strings_Contains ''bastion-vpc.example.com'' ''-v ''" by code_simp
  have v3: "\<not> suffix ''-v'' ''bastion-vpc.example.com''" by (simp add: suffix_to_prefix)
  have v4: "\<not> strings_Contains ''172.16.0.0/12'' ''-v ''" by code_simp
  have v5: "\<not> suffix ''-v'' ''172.16.0.0/12''" by (simp add: suffix_to_prefix)
  have v6: "\<not> strings_Contains ''--verbose --dns'' ''-v ''" by code_simp
  have d1: "\<not> strings_Contains ''ec2-user'' ''--daemon''" by code_simp
  have d2: "\<not> strings_Contains ''bastion-vpc.example.com'' ''--daemon''" by code_simp
  have d3: "\<not> strings_Contains ''172.16.0.0/12'' ''--daemon''" by code_simp
  have d4: "\<not> strings_Contains ''--verbose --dns'' ''--daemon''" by code_simp
  have c1: "strings_Contains ''bastion-vpc.example.com'' ''-v''" by code_simp
  have c2: "strings_Contains ''--verbose --dns'' ''-v''" by code_simp
  note th = command_daemon_and_verbose_flags [of ?t, unfolded fields]
  note a1 = th [THEN conjunct1]
  note a2 = th [THEN conjunct2, THEN conjunct1]
  note e = th [THEN conjunct2, THEN conjunct2, THEN conjunct2, THEN conjunct2, THEN conjunct1]
  note f = th [THEN conjunct2, THEN conjunct2, THEN conjunct2, THEN conjunct2, THEN conjunct2]
  have a3: "\<not> strings_Contains (tunnelCommand False ?t) ''-v ''"
    by (rule e [THEN mp]) (intro conjI v1 v2 v3 v4 v5 v6)
  have a4: "\<not> strings_Contains (tunnelCommand True ?t) ''--daemon''"
    by (rule f [THEN mp]) (intro conjI d1 d2 d3 d4)
  show ?thesis
    by (intro conjI a1 a2 a3 a4 c1 c2)
qed

theorem command_flags_from_extra_args_counterexample:
  "strings_Contains
     (tunnelCommand False
        \<lparr>Name = ''Corporate VPN'', Host = ''vpn.company.com'', User = ''employee'',
         Subnets = ''10.0.0.0/8'', ExtraArgs = ''-v --dns''\<rparr>) ''-v ''
   \<and> strings_Contains
       (tunnelCommand True
          \<lparr>Name = ''Corporate VPN'', Host = ''vpn.company.com'', User = ''employee'',
           Subnets = ''10.0.0.0/8'', ExtraArgs = ''--daemon''\<rparr>) ''--daemon''"
  by code_simp

section \<open>Properties of the process scan\<close>

lemma scan_loop_filter:
  "scan_loop ls acc =
     acc @ map (\<lambda>l. \<lparr>PID = the (strconv_Atoi (strings_Fields l ! 1)), Command = l,
                      Destination = (case re_dest l of None \<Rightarrow> ''unknown'' | Some d \<Rightarrow> d)\<rparr>)
             (filter (\<lambda>l. strings_Contains l ''sshuttle'' \<and> strings_Contains l ''-r''
                           \<and> 1 < length (strings_Fields l)
                           \<and> strconv_Atoi (strings_Fields l ! 1) \<noteq> None) ls)"
  by (induction ls arbitrary: acc) (auto simp: Let_def split: option.splits)

lemma parse_digits_Some: "parse_digits ds n = Some v \<Longrightarrow> list_all is_digit ds"
  by (induction ds arbitrary: n) (auto split: if_splits)

text \<open>
  What \<open>strconv.Atoi\<close> accepts: an optional sign and at least one digit, with a value that
  fits 64 bits. Zero and negative numbers are accepted.
\<close>

lemma strconv_Atoi_Some:
  assumes "strconv_Atoi s = Some v"
  shows "- (2 ^ 63) \<le> v \<and> v < 2 ^ 63
         \<and> (\<exists>sign ds. s = sign @ ds \<and> (sign = [] \<or> sign = ''+'' \<or> sign = ''-'')
               \<and> ds \<noteq> [] \<and> list_all is_digit ds)"
proof (cases s)
  case Nil
  with assms show ?thesis by (simp add: strconv_Atoi_def)
next
  case (Cons c cs)
  let ?body = "if c = CHR ''-'' \<or> c = CHR ''+'' then cs else s"
  from assms Cons obtain n where body: "?body \<noteq> []" and n: "parse_digits ?body 0 = Some n"
    and v: "v = (if c = CHR ''-'' then - n else n)" and range: "- (2 ^ 63) \<le> v \<and> v < 2 ^ 63"
    by (auto simp: strconv_Atoi_def Let_def split: if_splits option.splits)
  from n have digits: "list_all is_digit ?body" by (rule parse_digits_Some)
  have "\<exists>sign. s = sign @ ?body \<and> (sign = [] \<or> sign = ''+'' \<or> sign = ''-'')"
    using Cons by auto
  with body digits range show ?thesis by blast
qed

text \<open>
  C9, as the code has it. The scan returns, in the order of the lines the scanner yields
  (it stops at the first line of 65536 bytes or more), one session for every line that
  contains \<open>sshuttle\<close> and \<open>-r\<close>, has at least two fields and whose second field is
  accepted by \<open>strconv.Atoi\<close>; every other line is left out and never makes the scan
  fail. With no line containing both words the result is the empty list, not an error.
\<close>

theorem scan_drops_unparsable_lines:
  "getActiveTunnels (Inr out) =
     Inr (map (\<lambda>l. \<lparr>PID = the (strconv_Atoi (strings_Fields l ! 1)), Command = l,
                     Destination = (case re_dest l of None \<Rightarrow> ''unknown'' | Some d \<Rightarrow> d)\<rparr>)
            (filter (\<lambda>l. strings_Contains l ''sshuttle'' \<and> strings_Contains l ''-r''
                          \<and> 1 < length (strings_Fields l)
                          \<and> strconv_Atoi (strings_Fields l ! 1) \<noteq> None)
               (Scanner_lines out)))
   \<and> ((\<forall>l \<in> set (Scanner_lines out).
          \<not> (strings_Contains l ''sshuttle'' \<and> strings_Contains l ''-r''))
      \<longrightarrow> getActiveTunnels (Inr out) = Inr [])"
proof
  show eq: "getActiveTunnels (Inr out) =
     Inr (map (\<lambda>l. \<lparr>PID = the (strconv_Atoi (strings_Fields l ! 1)), Command = l,
                     Destination = (case re_dest l of None \<Rightarrow> ''unknown'' | Some d \<Rightarrow> d)\<rparr>)
            (filter (\<lambda>l. strings_Contains l ''sshuttle'' \<and> strings_Contains l ''-r''
                          \<and> 1 < length (strings_Fields l)
                          \<and> strconv_Atoi (strings_Fields l ! 1) \<noteq> None)
               (Scanner_lines out)))"
    by (simp add: scan_loop_filter)
  show "(\<forall>l \<in> set (Scanner_lines out).
          \<not> (strings_Contains l ''sshuttle'' \<and> strings_Contains l ''-r''))
      \<longrightarrow> getActiveTunnels (Inr out) = Inr []"
  proof
    assume "\<forall>l \<in> set (Scanner_lines out).
              \<not> (strings_Contains l ''sshuttle'' \<and> strings_Contains l ''-r'')"
    then have "filter (\<lambda>l. strings_Contains l ''sshuttle'' \<and> strings_Contains l ''-r''
                          \<and> 1 < length (strings_Fields l)
                          \<and> strconv_Atoi (strings_Fields l ! 1) \<noteq> None)
                 (Scanner_lines out) = []"
      by (auto simp: filter_empty_conv)
    with eq show "getActiveTunnels (Inr out) = Inr []" by simp
  qed
qed

theorem scan_drops_unparsable_lines_witness:
  "getActiveTunnels
     (Inr (''root 4242 0.0 sshuttle -r bob@gw 10.0.0.0/8'' @ [CHR 0x0A]
           @ ''root abc 0.0 sshuttle -r eve@gw 10.0.0.0/8'' @ [CHR 0x0A]
           @ ''root 4343 0.0 sshuttle -r amy@gw 10.1.0.0/16'' @ [CHR 0x0A])) =
     Inr [\<lparr>PID = 4242, Command = ''root 4242 0.0 sshuttle -r bob@gw 10.0.0.0/8'',
           Destination = ''bob@gw''\<rparr>,
          \<lparr>PID = 4343, Command = ''root 4343 0.0 sshuttle -r amy@gw 10.1.0.0/16'',
           Destination = ''amy@gw''\<rparr>]
   \<and> getActiveTunnels (Inr (''USER PID'' @ [CHR 0x0A] @ ''root 1 0.0 /sbin/init'' @ [CHR 0x0A])) =
       Inr []"
proof
  let ?out = "''root 4242 0.0 sshuttle -r bob@gw 10.0.0.0/8'' @ [CHR 0x0A]
           @ ''root abc 0.0 sshuttle -r eve@gw 10.0.0.0/8'' @ [CHR 0x0A]
           @ ''root 4343 0.0 sshuttle -r amy@gw 10.1.0.0/16'' @ [CHR 0x0A]"
  have lines: "Scanner_lines ?out =
      [''root 4242 0.0 sshuttle -r bob@gw 10.0.0.0/8'',
       ''root abc 0.0 sshuttle -r eve@gw 10.0.0.0/8'',
       ''root 4343 0.0 sshuttle -r amy@gw 10.1.0.0/16'']"
    by (simp add: Scanner_lines_def MaxScanTokenSize_def dropCR_def)
  have kept: "map (\<lambda>l. \<lparr>PID = the (strconv_Atoi (strings_Fields l ! 1)), Command = l,
                     Destination = (case re_dest l of None \<Rightarrow> ''unknown'' | Some d \<Rightarrow> d)\<rparr>)
            (filter (\<lambda>l. strings_Contains l ''sshuttle'' \<and> strings_Contains l ''-r''
                          \<and> 1 < length (strings_Fields l)
                          \<and> strconv_Atoi (strings_Fields l ! 1) \<noteq> None)
               [''root 4242 0.0 sshuttle -r bob@gw 10.0.0.0/8'',
                ''root abc 0.0 sshuttle -r eve@gw 10.0.0.0/8'',
                ''root 4343 0.0 sshuttle -r amy@gw 10.1.0.0/16'']) =
      [\<lparr>PID = 4242, Command = ''root 4242 0.0 sshuttle -r bob@gw 10.0.0.0/8'',
           Destination = ''bob@gw''\<rparr>,
       \<lparr>PID = 4343, Command = ''root 4343 0.0 sshuttle -r amy@gw 10.1.0.0/16'',
           Destination = ''amy@gw''\<rparr>]"
    by code_simp
  from scan_drops_unparsable_lines [of ?out]
  show "getActiveTunnels (Inr ?out) =
     Inr [\<lparr>PID = 4242, Command = ''root 4242 0.0 sshuttle -r bob@gw 10.0.0.0/8'',
           Destination = ''bob@gw''\<rparr>,
          \<lparr>PID = 4343, Command = ''root 4343 0.0 sshuttle -r amy@gw 10.1.0.0/16'',
           Destination = ''amy@gw''\<rparr>]"
    unfolding lines kept by (rule conjunct1)
next
  let ?out = "''USER PID'' @ [CHR 0x0A] @ ''root 1 0.0 /sbin/init'' @ [CHR 0x0A]"
  have lines: "Scanner_lines ?out = [''USER PID'', ''root 1 0.0 /sbin/init'']"
    by (simp add: Scanner_lines_def MaxScanTokenSize_def dropCR_def)
  have a: "\<not> strings_Contains ''USER PID'' ''sshuttle''" by code_simp
  have b: "\<not> strings_Contains ''root 1 0.0 /sbin/init'' ''sshuttle''" by code_simp
  have none: "\<forall>l \<in> set (Scanner_lines ?out).
                \<not> (strings_Contains l ''sshuttle'' \<and> strings_Contains l ''-r'')"
    unfolding lines using a b by simp
  from scan_drops_unparsable_lines [of ?out] none
  show "getActiveTunnels (Inr ?out) = Inr []" by blast
qed

theorem scan_keeps_negative_pid_counterexample:
  "strings_Fields ''root -7 0.0 sshuttle -r bob@gw 10.0.0.0/8'' ! 1 = ''-7''
   \<and> getActiveTunnels (Inr (''root -7 0.0 sshuttle -r bob@gw 10.0.0.0/8'' @ [CHR 0x0A])) =
       Inr [\<lparr>PID = - 7, Command = ''root -7 0.0 sshuttle -r bob@gw 10.0.0.0/8'',
             Destination = ''bob@gw''\<rparr>]"
proof -
  have "Scanner_lines (''root -7 0.0 sshuttle -r bob@gw 10.0.0.0/8'' @ [CHR 0x0A]) =
          [''root -7 0.0 sshuttle -r bob@gw 10.0.0.0/8'']"
    by (simp add: Scanner_lines_def MaxScanTokenSize_def dropCR_def)
  moreover have "scan_loop [''root -7 0.0 sshuttle -r bob@gw 10.0.0.0/8''] [] =
      [\<lparr>PID = - 7, Command = ''root -7 0.0 sshuttle -r bob@gw 10.0.0.0/8'',
             Destination = ''bob@gw''\<rparr>]"
    by code_simp
  moreover have "strings_Fields ''root -7 0.0 sshuttle -r bob@gw 10.0.0.0/8'' ! 1 = ''-7''"
    by code_simp
  ultimately show ?thesis by (simp only: getActiveTunnels.simps simp_thms)
qed

end
